theory Spec2Isabelle
  imports Main "HOL-Library.AList" "HOL-Library.List_Lexorder"
begin

section \<open>The versioned object model of nova/objects/base.py\<close>

text \<open>
  This theory embeds the object model of \<^verbatim>\<open>src/nova/objects/base.py\<close>: the registry
  lookup, hydration and dehydration of wire primitives, the backport of composed
  fields, change tracking, the remotable wrapper and the deserializer of the RPC
  serializer. Python exceptions are values of the type \<open>error\<close>; a function that may
  raise returns \<open>error + 'a\<close>, with \<open>Inl\<close> for the exception. Mutation of an object or of
  a dict is explicit: the function returns the new value.
\<close>

subsection \<open>Exceptions\<close>

text \<open>
  The exceptions of \<^verbatim>\<open>nova.exception\<close> that base.py raises, with their keyword
  arguments in the order of the source, and the builtin exceptions of the Python
  operations the model makes explicit (a missing key, an index out of range, an
  operation on a value of the wrong type, \<^verbatim>\<open>int()\<close> of a string that is no number).
\<close>

datatype error =
    UnsupportedObjectError string
  | IncompatibleObjectVersion string string string
  | OrphanedObjectError string string
  | ObjectActionError string string
  | AttributeNotSet string
  | AttributeError string
  | KeyError string
  | IndexError
  | TypeError
  | ValueError string

subsection \<open>Version strings\<close>

text \<open>\<^verbatim>\<open>str.split(sep)\<close> for a one-character separator: never the empty list.\<close>

fun split_on :: "char \<Rightarrow> string \<Rightarrow> string list" where
  "split_on c [] = [[]]"
| "split_on c (x # xs) =
     (if x = c then [] # split_on c xs
      else (case split_on c xs of [] \<Rightarrow> [[x]] | y # ys \<Rightarrow> (x # y) # ys))"

text \<open>\<^verbatim>\<open>sep.join(parts)\<close>.\<close>

fun join_with :: "char \<Rightarrow> string list \<Rightarrow> string" where
  "join_with c [] = []"
| "join_with c [p] = p"
| "join_with c (p # q # ps) = p @ c # join_with c (q # ps)"

definition is_digit :: "char \<Rightarrow> bool" where
  "is_digit c = (c \<in> set ''0123456789'')"

text \<open>
  \<^verbatim>\<open>int(part)\<close> on the components of a version string: a non-empty run of decimal
  digits is its number, anything else is the \<^verbatim>\<open>ValueError\<close>.
\<close>

definition int_of_str :: "string \<Rightarrow> error + nat" where
  "int_of_str s =
     (if s \<noteq> [] \<and> list_all is_digit s
      then Inr (fold (\<lambda>c n. 10 * n + (of_char c - 48)) s 0)
      else Inl (ValueError s))"

fun ints_of_strs :: "string list \<Rightarrow> error + nat list" where
  "ints_of_strs [] = Inr []"
| "ints_of_strs (p # ps) =
     (case int_of_str p of
        Inl e \<Rightarrow> Inl e
      | Inr n \<Rightarrow> (case ints_of_strs ps of Inl e \<Rightarrow> Inl e | Inr ns \<Rightarrow> Inr (n # ns)))"

text \<open>
  Modelled from the spec: \<^verbatim>\<open>nova.utils.convert_version_to_tuple\<close> is called by
  base.py and is not among the sources. The spec gives a version as the string
  "MAJOR.MINOR.PATCH" of numbers, ordered component by component; the model splits the
  string at the dots and reads every component as a number. Python compares the
  resulting tuples lexicographically, a proper prefix being smaller: that is the order
  \<open><\<close> of \<open>nat list\<close>.
\<close>

definition convert_version_to_tuple :: "string \<Rightarrow> error + nat list" where
  "convert_version_to_tuple version_str = ints_of_strs (split_on CHR ''.'' version_str)"

subsection \<open>Wire primitives, fields, classes and objects\<close>

text \<open>
  A primitive is what crosses the wire: \<^verbatim>\<open>None\<close>, scalars, lists, dicts, and the
  dict of an object, whose keys are \<^verbatim>\<open>nova_object.namespace\<close>, \<^verbatim>\<open>nova_object.name\<close>,
  \<^verbatim>\<open>nova_object.version\<close>, \<^verbatim>\<open>nova_object.data\<close> and, optionally,
  \<^verbatim>\<open>nova_object.changes\<close>. A dict is an association list read with \<open>map_of\<close>.
\<close>

datatype prim = PNone | PBool bool | PInt int | PStr string | PList "prim list"
  | PDict "(string \<times> prim) list"
  | PObj (nova_object_namespace: string) (nova_object_name: string)
      (nova_object_version: string) (nova_object_data: "(string \<times> prim) list")
      (nova_object_changes: "string list option")

text \<open>
  Modelled from the spec: the field descriptors of \<^verbatim>\<open>nova.objects.fields\<close> are not
  among the sources. base.py tells \<^verbatim>\<open>ObjectField\<close> and \<^verbatim>\<open>ListOfObjectsField\<close> from
  every other field by \<^verbatim>\<open>isinstance\<close>; another field carries the two conversions the
  spec gives a descriptor, \<open>to_primitive\<close> and \<open>from_primitive\<close>, over the type \<open>'a\<close> of
  its values in memory.
\<close>

datatype 'a field = ObjectField | ListOfObjectsField
  | Field (to_primitive: "'a \<Rightarrow> prim") (from_primitive: "prim \<Rightarrow> error + 'a")

text \<open>
  The class attributes of a subclass of \<^verbatim>\<open>NovaObject\<close>: its name (\<^verbatim>\<open>obj_name()\<close>),
  \<^verbatim>\<open>VERSION\<close>, \<^verbatim>\<open>fields\<close> (a dict: the names are distinct; the list is its
  iteration order), \<^verbatim>\<open>obj_extra_fields\<close> and \<^verbatim>\<open>obj_relationships\<close>.
\<close>

record 'a objclass =
  obj_name :: string
  VERSION :: string
  cls_fields :: "(string \<times> 'a field) list"
  obj_extra_fields :: "string list"
  obj_relationships :: "(string \<times> (string \<times> string) list) list"

datatype request_context = RequestContext string

text \<open>
  A value in memory is \<^verbatim>\<open>None\<close>, a scalar, a \<^verbatim>\<open>NovaObject\<close> or a list of them. An
  object has its class, the \<^verbatim>\<open>VERSION\<close> of the instance (hydration overwrites the
  class attribute), \<^verbatim>\<open>_context\<close>, the attributes \<^verbatim>\<open>_obj_<name>\<close> that are set, and
  \<^verbatim>\<open>_changed_fields\<close> (a Python set, here a list read through \<open>set\<close>).
\<close>

datatype 'a pyval = VNone | VScalar 'a | VObj "'a nova_object" | VList "'a nova_object list"
and 'a nova_object = NovaObject (obj_class: "'a objclass") (obj_VERSION: string)
  (obj_context: "request_context option") (obj_attrs: "(string \<times> 'a pyval) list")
  (obj_changed_fields: "string list")

text \<open>\<^verbatim>\<open>obj_fields\<close>: the declared names and the extra ones.\<close>

definition obj_fields :: "'a nova_object \<Rightarrow> string list" where
  "obj_fields self = map fst (cls_fields (obj_class self)) @ obj_extra_fields (obj_class self)"

definition obj_attr_is_set :: "'a nova_object \<Rightarrow> string \<Rightarrow> error + bool" where
  "obj_attr_is_set self attrname =
     (if attrname \<notin> set (obj_fields self) then Inl (AttributeError attrname)
      else Inr (map_of (obj_attrs self) attrname \<noteq> None))"

text \<open>
  Modelled from the spec: the properties that read and write a field are made by the
  registry of \<^verbatim>\<open>oslo_versionedobjects\<close>, not by base.py. The spec's \<open>get(name)\<close> fails
  with \<open>AttributeNotSet\<close> on a field that is unset; its \<open>set(name, value)\<close> stores the
  value and adds the name to the changed set.
\<close>

definition getattr :: "'a nova_object \<Rightarrow> string \<Rightarrow> error + 'a pyval" where
  "getattr self name =
     (case map_of (obj_attrs self) name of
        None \<Rightarrow> Inl (AttributeNotSet name)
      | Some v \<Rightarrow> Inr v)"

fun setattr :: "'a nova_object \<Rightarrow> string \<Rightarrow> 'a pyval \<Rightarrow> 'a nova_object" where
  "setattr (NovaObject c ver ctx attrs changed) name v =
     NovaObject c ver ctx (AList.update name v attrs) (List.insert name changed)"

subsection \<open>The backport of composed fields\<close>

text \<open>
  The loop of \<^verbatim>\<open>obj_calculate_child_version\<close> over \<^verbatim>\<open>enumerate(obj_relationships[child])\<close>:
  \<open>rel\<close> is the whole table of the child, \<open>index\<close> the position of the head of the rest.
  The result \<open>None\<close> is Python's \<^verbatim>\<open>None\<close>: the child is to be left out.
\<close>

fun calculate_loop ::
  "nat list \<Rightarrow> (string \<times> string) list \<Rightarrow> nat \<Rightarrow> (string \<times> string) list \<Rightarrow> error + string option"
where
  "calculate_loop target_version rel index [] =
     (case rel of [] \<Rightarrow> Inl IndexError | _ \<Rightarrow> Inr (Some (snd (last rel))))"
| "calculate_loop target_version rel index ((my_version, child_version) # rest) =
     (case convert_version_to_tuple my_version of
        Inl e \<Rightarrow> Inl e
      | Inr my_version \<Rightarrow>
          if target_version < my_version then
            (if index = 0 then Inr None else Inr (Some (snd (rel ! (index - 1)))))
          else if target_version = my_version then Inr (Some child_version)
          else calculate_loop target_version rel (Suc index) rest)"

definition obj_calculate_child_version ::
  "'a nova_object \<Rightarrow> string \<Rightarrow> string \<Rightarrow> error + string option"
where
  "obj_calculate_child_version self target_version child =
     (case convert_version_to_tuple target_version of
        Inl e \<Rightarrow> Inl e
      | Inr target_version \<Rightarrow>
          (case map_of (obj_relationships (obj_class self)) child of
             None \<Rightarrow> Inl (KeyError child)
           | Some rel \<Rightarrow> calculate_loop target_version rel 0 rel))"

text \<open>\<^verbatim>\<open>isinstance(field, (ObjectField, ListOfObjectsField))\<close>.\<close>

fun composed :: "'a field \<Rightarrow> bool" where
  "composed ObjectField = True"
| "composed ListOfObjectsField = True"
| "composed (Field to_prim from_prim) = False"

lemma size_attr_less [termination_simp]:
  "map_of attrs k = Some v \<Longrightarrow> size v < Suc (size_list (size_prod (\<lambda>x. 0) size) attrs)"
  by (induction attrs) (auto split: if_splits)

lemma getattr_size [termination_simp]:
  "getattr self k = Inr v \<Longrightarrow> size v < size self"
  by (cases self) (auto simp: getattr_def split: option.splits dest: size_attr_less)

text \<open>
  \<^verbatim>\<open>obj_make_compatible\<close> with its loop over \<^verbatim>\<open>self.fields.items()\<close>
  (\<open>make_compatible_fields\<close>), \<^verbatim>\<open>_obj_make_obj_compatible\<close>, its inner function
  \<^verbatim>\<open>_do_backport\<close>, and the loop of that over the elements of a list
  (\<open>backport_elements\<close>). The primitive is the dict of the object's data; Python changes
  it in place, the model returns it.
\<close>

function (sequential) obj_make_compatible ::
    "'a nova_object \<Rightarrow> (string \<times> prim) list \<Rightarrow> string \<Rightarrow> error + (string \<times> prim) list"
  and make_compatible_fields ::
    "'a nova_object \<Rightarrow> (string \<times> 'a field) list \<Rightarrow> (string \<times> prim) list \<Rightarrow> string
      \<Rightarrow> error + (string \<times> prim) list"
  and obj_make_obj_compatible ::
    "'a nova_object \<Rightarrow> (string \<times> prim) list \<Rightarrow> string \<Rightarrow> string \<Rightarrow> error + (string \<times> prim) list"
  and do_backport ::
    "'a nova_object \<Rightarrow> (string \<times> prim) list \<Rightarrow> string \<Rightarrow> string \<Rightarrow> error + (string \<times> prim) list"
  and backport_elements ::
    "'a nova_object list \<Rightarrow> prim list \<Rightarrow> string \<Rightarrow> error + prim list"
where
  "obj_make_compatible self primitive target_version =
     make_compatible_fields self (cls_fields (obj_class self)) primitive target_version"
| "make_compatible_fields self [] primitive target_version = Inr primitive"
| "make_compatible_fields self ((key, field) # rest) primitive target_version =
     (if \<not> composed field then make_compatible_fields self rest primitive target_version
      else
        (case obj_attr_is_set self key of
           Inl e \<Rightarrow> Inl e
         | Inr False \<Rightarrow> make_compatible_fields self rest primitive target_version
         | Inr True \<Rightarrow>
             if map_of (obj_relationships (obj_class self)) key = None then
               Inl (ObjectActionError ''obj_make_compatible'' (''No rule for '' @ key))
             else
               (case obj_make_obj_compatible self primitive target_version key of
                  Inl e \<Rightarrow> Inl e
                | Inr primitive' \<Rightarrow>
                    make_compatible_fields self rest primitive' target_version)))"
| "obj_make_obj_compatible self primitive target_version field =
     (case obj_calculate_child_version self target_version field of
        Inl e \<Rightarrow> Inl e
      | Inr None \<Rightarrow>
          (case map_of primitive field of
             None \<Rightarrow> Inl (KeyError field)
           | Some p \<Rightarrow> Inr (AList.delete field primitive))
      | Inr (Some child_version) \<Rightarrow> do_backport self primitive field child_version)"
| "do_backport self primitive field to_version =
     (case getattr self field of
        Inl e \<Rightarrow> Inl e
      | Inr VNone \<Rightarrow> Inr primitive
      | Inr (VScalar x) \<Rightarrow> Inr primitive
      | Inr (VObj obj) \<Rightarrow>
          (case map_of primitive field of
             None \<Rightarrow> Inl (KeyError field)
           | Some (PObj ns name ver data changes) \<Rightarrow>
               if to_version \<noteq> ver then
                 (case obj_make_compatible obj data to_version of
                    Inl e \<Rightarrow> Inl e
                  | Inr data' \<Rightarrow>
                      Inr (AList.update field (PObj ns name to_version data' changes) primitive))
               else Inr (AList.update field (PObj ns name to_version data changes) primitive)
           | Some other \<Rightarrow> Inl TypeError)
      | Inr (VList objs) \<Rightarrow>
          (case map_of primitive field of
             None \<Rightarrow> Inl (KeyError field)
           | Some (PList ps) \<Rightarrow>
               (case backport_elements objs ps to_version of
                  Inl e \<Rightarrow> Inl e
                | Inr ps' \<Rightarrow> Inr (AList.update field (PList ps') primitive))
           | Some other \<Rightarrow> Inl TypeError))"
| "backport_elements [] ps to_version = Inr ps"
| "backport_elements (element # rest) [] to_version = Inl IndexError"
| "backport_elements (element # rest) (PObj ns name ver data changes # ps) to_version =
     (case obj_make_compatible element data to_version of
        Inl e \<Rightarrow> Inl e
      | Inr data' \<Rightarrow>
          (case backport_elements rest ps to_version of
             Inl e \<Rightarrow> Inl e
           | Inr ps' \<Rightarrow> Inr (PObj ns name to_version data' changes # ps')))"
| "backport_elements (element # rest) (other # ps) to_version = Inl TypeError"
  by pat_completeness auto
termination
  apply (relation "inv_image (less_than <*lex*> less_than <*lex*> less_than)
    (\<lambda>x. case x of
       Inl (Inl (self, p, tv)) \<Rightarrow> (size self, 3::nat, 0::nat)
     | Inl (Inr (self, fs, p, tv)) \<Rightarrow> (size self, 2, length fs)
     | Inr (Inl (self, p, tv, f)) \<Rightarrow> (size self, 1, 0)
     | Inr (Inr (Inl (self, p, f, v))) \<Rightarrow> (size self, 0, 0)
     | Inr (Inr (Inr (objs, ps, v))) \<Rightarrow> (size_list size objs, 4, 0))")
  apply (simp_all add: getattr_size)
  apply (auto dest: getattr_size)
  done

subsection \<open>Change tracking\<close>

text \<open>
  \<^verbatim>\<open>obj_what_changed\<close> and its loop over \<^verbatim>\<open>self.fields\<close>. Every name of the loop is
  a declared field, so \<^verbatim>\<open>obj_attr_is_set\<close> does not raise there.
\<close>

function (sequential) obj_what_changed :: "'a nova_object \<Rightarrow> string list"
  and what_changed_fields :: "'a nova_object \<Rightarrow> string list \<Rightarrow> string list \<Rightarrow> string list"
where
  "obj_what_changed self =
     what_changed_fields self (map fst (cls_fields (obj_class self))) (obj_changed_fields self)"
| "what_changed_fields self [] changes = changes"
| "what_changed_fields self (field # rest) changes =
     what_changed_fields self rest
       (if obj_attr_is_set self field = Inr True \<and>
           (case getattr self field of
              Inr (VObj child) \<Rightarrow> obj_what_changed child \<noteq> []
            | _ \<Rightarrow> False)
        then List.insert field changes else changes)"
  by pat_completeness auto
termination
  apply (relation "inv_image (less_than <*lex*> less_than)
    (\<lambda>x. case x of
       Inl self \<Rightarrow> (size self, Suc (length (cls_fields (obj_class self))))
     | Inr (self, fs, changes) \<Rightarrow> (size self, length fs))")
  apply (auto dest: getattr_size)
  done

text \<open>
  \<^verbatim>\<open>obj_get_changes\<close>: the dict of the changed fields and their values. \<open>get_changes_loop\<close>
  is its loop over \<^verbatim>\<open>self.obj_what_changed()\<close>; reading a changed field that is not
  set raises.
\<close>

fun get_changes_loop ::
  "'a nova_object \<Rightarrow> string list \<Rightarrow> (string \<times> 'a pyval) list \<Rightarrow> error + (string \<times> 'a pyval) list"
where
  "get_changes_loop self [] changes = Inr changes"
| "get_changes_loop self (key # rest) changes =
     (case getattr self key of
        Inl e \<Rightarrow> Inl e
      | Inr v \<Rightarrow> get_changes_loop self rest (AList.update key v changes))"

definition obj_get_changes :: "'a nova_object \<Rightarrow> error + (string \<times> 'a pyval) list" where
  "obj_get_changes self = get_changes_loop self (obj_what_changed self) []"

text \<open>
  An object owns the objects in its fields. Python resets a nested object in place; in
  the model the reset object is stored back under its field, the changed set of the
  owner untouched.
\<close>

fun store_attr :: "'a nova_object \<Rightarrow> string \<Rightarrow> 'a pyval \<Rightarrow> 'a nova_object" where
  "store_attr (NovaObject c ver ctx attrs changed) name v =
     NovaObject c ver ctx (AList.update name v attrs) changed"

fun set_changed_fields :: "'a nova_object \<Rightarrow> string list \<Rightarrow> 'a nova_object" where
  "set_changed_fields (NovaObject c ver ctx attrs changed) changed' =
     NovaObject c ver ctx attrs changed'"

text \<open>Python's truth value of the argument \<^verbatim>\<open>fields\<close>: \<^verbatim>\<open>None\<close> and the empty list are false.\<close>

fun truthy :: "'b list option \<Rightarrow> bool" where
  "truthy None = False"
| "truthy (Some xs) = (xs \<noteq> [])"

text \<open>
  \<^verbatim>\<open>obj_reset_changes(fields, recursive)\<close>. \<open>reset_loop\<close> is the loop over the keys of
  \<^verbatim>\<open>self.obj_get_changes()\<close>: \<open>self\<close> is the object as it was at entry, where
  \<^verbatim>\<open>getattr(self, field)\<close> is read (the keys of a dict are distinct, so no field read
  has been reset before), \<open>acc\<close> the object with the nested objects reset so far.
  \<open>reset_things\<close> is the loop \<^verbatim>\<open>for thing in value\<close>.
\<close>

function (sequential) obj_reset_changes ::
    "'a nova_object \<Rightarrow> string list option \<Rightarrow> bool \<Rightarrow> error + 'a nova_object"
  and reset_loop ::
    "'a nova_object \<Rightarrow> string list \<Rightarrow> string list option \<Rightarrow> 'a nova_object \<Rightarrow> error + 'a nova_object"
  and reset_things :: "'a nova_object list \<Rightarrow> error + 'a nova_object list"
where
  "obj_reset_changes self fieldnames recursive =
     (case (if recursive then
              (case obj_get_changes self of
                 Inl e \<Rightarrow> Inl e
               | Inr changes \<Rightarrow> reset_loop self (map fst changes) fieldnames self)
            else Inr self) of
        Inl e \<Rightarrow> Inl e
      | Inr self' \<Rightarrow>
          if truthy fieldnames then
            Inr (set_changed_fields self'
                  (filter (\<lambda>x. x \<notin> set (the fieldnames)) (obj_changed_fields self')))
          else Inr (set_changed_fields self' []))"
| "reset_loop self [] fieldnames acc = Inr acc"
| "reset_loop self (field # rest) fieldnames acc =
     (if truthy fieldnames \<and> field \<notin> set (the fieldnames) then reset_loop self rest fieldnames acc
      else
        (case obj_attr_is_set self field of
           Inl e \<Rightarrow> Inl e
         | Inr False \<Rightarrow> reset_loop self rest fieldnames acc
         | Inr True \<Rightarrow>
            (case getattr self field of
               Inl e \<Rightarrow> Inl e
             | Inr VNone \<Rightarrow> reset_loop self rest fieldnames acc
             | Inr v \<Rightarrow>
                (case map_of (cls_fields (obj_class self)) field of
                   None \<Rightarrow> Inl (KeyError field)
                 | Some ObjectField \<Rightarrow>
                     (case v of
                        VObj child \<Rightarrow>
                          (case obj_reset_changes child None True of
                             Inl e \<Rightarrow> Inl e
                           | Inr child' \<Rightarrow>
                               reset_loop self rest fieldnames (store_attr acc field (VObj child')))
                      | _ \<Rightarrow> Inl (AttributeError ''obj_reset_changes''))
                 | Some ListOfObjectsField \<Rightarrow>
                     (case v of
                        VList things \<Rightarrow>
                          (case reset_things things of
                             Inl e \<Rightarrow> Inl e
                           | Inr things' \<Rightarrow>
                               reset_loop self rest fieldnames (store_attr acc field (VList things')))
                      | _ \<Rightarrow> Inl TypeError)
                 | Some (Field to_prim from_prim) \<Rightarrow> reset_loop self rest fieldnames acc))))"
| "reset_things [] = Inr []"
| "reset_things (thing # rest) =
     (case obj_reset_changes thing None True of
        Inl e \<Rightarrow> Inl e
      | Inr thing' \<Rightarrow>
          (case reset_things rest of
             Inl e \<Rightarrow> Inl e
           | Inr rest' \<Rightarrow> Inr (thing' # rest')))"
  by pat_completeness auto
termination
  apply (relation "inv_image (less_than <*lex*> less_than <*lex*> less_than)
    (\<lambda>x. case x of
       Inl (self, fieldnames, recursive) \<Rightarrow> (size self, 1::nat, 0::nat)
     | Inr (Inl (self, keys, fieldnames, acc)) \<Rightarrow> (size self, 0, length keys)
     | Inr (Inr things) \<Rightarrow> (size_list size things, 2, 0))")
  apply (auto dest: getattr_size)
  done

subsection \<open>Dehydration\<close>

text \<open>
  \<^verbatim>\<open>obj_to_primitive(target_version)\<close> and its loop over \<^verbatim>\<open>self.fields.items()\<close>
  (\<open>to_primitive_fields\<close>, which fills the dict \<open>primitive\<close>). A target version that is
  \<^verbatim>\<open>None\<close> or empty is false in \<^verbatim>\<open>if target_version\<close> and in
  \<^verbatim>\<open>target_version or self.VERSION\<close>. \<^verbatim>\<open>list(self.obj_what_changed())\<close> is the list
  of the model.

  Modelled from the spec: \<open>field_to_primitive\<close> is \<^verbatim>\<open>field.to_primitive(self, name, value)\<close>
  of \<^verbatim>\<open>nova.objects.fields\<close>, which is not among the sources. \<^verbatim>\<open>None\<close> is primitive
  as it is; the value of an \<^verbatim>\<open>ObjectField\<close> is dehydrated by its own
  \<^verbatim>\<open>obj_to_primitive()\<close>, the value of a \<^verbatim>\<open>ListOfObjectsField\<close> element by element
  (\<open>objects_to_primitive\<close>), a scalar by the conversion of its descriptor; a value of
  another kind than the field's raises.
\<close>

function (sequential) obj_to_primitive :: "'a nova_object \<Rightarrow> string option \<Rightarrow> error + prim"
  and to_primitive_fields ::
    "'a nova_object \<Rightarrow> (string \<times> 'a field) list \<Rightarrow> (string \<times> prim) list
      \<Rightarrow> error + (string \<times> prim) list"
  and field_to_primitive :: "'a field \<Rightarrow> 'a pyval \<Rightarrow> error + prim"
  and objects_to_primitive :: "'a nova_object list \<Rightarrow> error + prim list"
where
  "obj_to_primitive self target_version =
     (case to_primitive_fields self (cls_fields (obj_class self)) [] of
        Inl e \<Rightarrow> Inl e
      | Inr primitive \<Rightarrow>
          (case (if truthy target_version
                 then obj_make_compatible self primitive (the target_version)
                 else Inr primitive) of
             Inl e \<Rightarrow> Inl e
           | Inr primitive' \<Rightarrow>
               Inr (PObj ''nova'' (obj_name (obj_class self))
                     (if truthy target_version then the target_version else obj_VERSION self)
                     primitive'
                     (if obj_what_changed self \<noteq> [] then Some (obj_what_changed self)
                      else None))))"
| "to_primitive_fields self [] primitive = Inr primitive"
| "to_primitive_fields self ((name, field) # rest) primitive =
     (case obj_attr_is_set self name of
        Inl e \<Rightarrow> Inl e
      | Inr False \<Rightarrow> to_primitive_fields self rest primitive
      | Inr True \<Rightarrow>
          (case getattr self name of
             Inl e \<Rightarrow> Inl e
           | Inr v \<Rightarrow>
               (case field_to_primitive field v of
                  Inl e \<Rightarrow> Inl e
                | Inr p \<Rightarrow> to_primitive_fields self rest (AList.update name p primitive))))"
| "field_to_primitive field VNone = Inr PNone"
| "field_to_primitive ObjectField (VObj obj) = obj_to_primitive obj None"
| "field_to_primitive ObjectField v = Inl (AttributeError ''obj_to_primitive'')"
| "field_to_primitive ListOfObjectsField (VList objs) =
     (case objects_to_primitive objs of
        Inl e \<Rightarrow> Inl e
      | Inr ps \<Rightarrow> Inr (PList ps))"
| "field_to_primitive ListOfObjectsField v = Inl TypeError"
| "field_to_primitive (Field to_prim from_prim) (VScalar x) = Inr (to_prim x)"
| "field_to_primitive (Field to_prim from_prim) v = Inl TypeError"
| "objects_to_primitive [] = Inr []"
| "objects_to_primitive (obj # rest) =
     (case obj_to_primitive obj None of
        Inl e \<Rightarrow> Inl e
      | Inr p \<Rightarrow>
          (case objects_to_primitive rest of
             Inl e \<Rightarrow> Inl e
           | Inr ps \<Rightarrow> Inr (p # ps)))"
  by pat_completeness auto
termination
  apply (relation "inv_image (less_than <*lex*> less_than <*lex*> less_than)
    (\<lambda>x. case x of
       Inl (Inl (self, tv)) \<Rightarrow> (size self, 2::nat, 0::nat)
     | Inl (Inr (self, fs, p)) \<Rightarrow> (size self, 1, length fs)
     | Inr (Inl (f, v)) \<Rightarrow> (size v, 0, 0)
     | Inr (Inr objs) \<Rightarrow> (size_list size objs, 3, 0))")
  apply (auto dest: getattr_size)
  done

subsection \<open>The registry and hydration\<close>

text \<open>
  \<^verbatim>\<open>NovaObjectRegistry.obj_classes()\<close>: a dict from a name to the classes registered
  under it, the highest version first (the registry of \<^verbatim>\<open>oslo_versionedobjects\<close> keeps
  them so).
\<close>

type_synonym 'a registry = "(string \<times> 'a objclass list) list"

text \<open>
  The loop of \<^verbatim>\<open>obj_class_from_name\<close> over the classes of a name: an exact match
  returns at once, the first compatible class is kept in \<open>compatible_match\<close> and returned
  after the loop. \<open>is_compat\<close> is \<^verbatim>\<open>versionutils.is_compatible\<close> of \<^verbatim>\<open>oslo_utils\<close>, a
  library outside the repository: \<open>is_compat requested current\<close>.
\<close>

fun find_class ::
  "(string \<Rightarrow> string \<Rightarrow> bool) \<Rightarrow> string \<Rightarrow> 'a objclass list \<Rightarrow> 'a objclass option
    \<Rightarrow> 'a objclass option"
where
  "find_class is_compat objver [] compatible_match = compatible_match"
| "find_class is_compat objver (objclass # rest) compatible_match =
     (if VERSION objclass = objver then Some objclass
      else find_class is_compat objver rest
             (if compatible_match = None \<and> is_compat objver (VERSION objclass)
              then Some objclass else compatible_match))"

definition obj_class_from_name ::
  "(string \<Rightarrow> string \<Rightarrow> bool) \<Rightarrow> 'a registry \<Rightarrow> string \<Rightarrow> string \<Rightarrow> error + 'a objclass"
where
  "obj_class_from_name is_compat reg objname objver =
     (case map_of reg objname of
        None \<Rightarrow> Inl (UnsupportedObjectError objname)
      | Some classes \<Rightarrow>
          (case find_class is_compat objver classes None of
             Some objclass \<Rightarrow> Inr objclass
           | None \<Rightarrow>
               (case classes of
                  [] \<Rightarrow> Inl IndexError
                | latest # older \<Rightarrow>
                    Inl (IncompatibleObjectVersion objname objver (VERSION latest)))))"

text \<open>
  Modelled from the spec: \<^verbatim>\<open>versionutils.is_compatible\<close> is not among the sources. The
  spec's words: a registered version is compatible with the requested one when its
  MAJOR is equal and its MINOR is at least the requested MINOR. MAJOR and MINOR are the
  first two components of the version tuple, a missing one being 0.
\<close>

definition version_major :: "nat list \<Rightarrow> nat" where
  "version_major t = (case t of [] \<Rightarrow> 0 | major # rest \<Rightarrow> major)"

definition version_minor :: "nat list \<Rightarrow> nat" where
  "version_minor t = (case t of major # minor # rest \<Rightarrow> minor | _ \<Rightarrow> 0)"

definition is_compatible :: "string \<Rightarrow> string \<Rightarrow> bool" where
  "is_compatible requested_version current_version =
     (case (convert_version_to_tuple requested_version,
            convert_version_to_tuple current_version) of
        (Inr requested, Inr current) \<Rightarrow>
          version_major current = version_major requested \<and>
          version_minor requested \<le> version_minor current
      | _ \<Rightarrow> False)"

lemma size_data_less:
  "map_of data k = Some (p :: prim) \<Longrightarrow> size p < Suc (size_list (size_prod (\<lambda>x. 0) size) data)"
  by (induction data) (auto split: if_splits)

text \<open>
  \<^verbatim>\<open>obj_from_primitive\<close>, the class method \<^verbatim>\<open>_obj_from_primitive\<close> (\<open>hydrate\<close>: an
  Isabelle name does not start with an underscore) and its loop over
  \<^verbatim>\<open>self.fields.items()\<close> (\<open>from_primitive_fields\<close>). \<^verbatim>\<open>cls()\<close> is the object with no
  context, no field set and nothing changed.

  Modelled from the spec: \<open>field_from_primitive\<close> is \<^verbatim>\<open>field.from_primitive(self, name, value)\<close>
  of \<^verbatim>\<open>nova.objects.fields\<close>: \<^verbatim>\<open>None\<close> stays \<^verbatim>\<open>None\<close>, the primitive of an
  \<^verbatim>\<open>ObjectField\<close> is hydrated by \<^verbatim>\<open>obj_from_primitive\<close> with the context of the owner,
  that of a \<^verbatim>\<open>ListOfObjectsField\<close> element by element (\<open>objects_from_primitive\<close>), a
  scalar by the conversion of its descriptor.
\<close>

function (sequential) obj_from_primitive ::
    "(string \<Rightarrow> string \<Rightarrow> bool) \<Rightarrow> 'a registry \<Rightarrow> prim \<Rightarrow> request_context option
      \<Rightarrow> error + 'a nova_object"
  and hydrate ::
    "(string \<Rightarrow> string \<Rightarrow> bool) \<Rightarrow> 'a registry \<Rightarrow> 'a objclass \<Rightarrow> request_context option
      \<Rightarrow> string \<Rightarrow> prim \<Rightarrow> error + 'a nova_object"
  and from_primitive_fields ::
    "(string \<Rightarrow> string \<Rightarrow> bool) \<Rightarrow> 'a registry \<Rightarrow> (string \<times> 'a field) list
      \<Rightarrow> (string \<times> prim) list \<Rightarrow> 'a nova_object \<Rightarrow> error + 'a nova_object"
  and field_from_primitive ::
    "(string \<Rightarrow> string \<Rightarrow> bool) \<Rightarrow> 'a registry \<Rightarrow> 'a field \<Rightarrow> request_context option
      \<Rightarrow> prim \<Rightarrow> error + 'a pyval"
  and objects_from_primitive ::
    "(string \<Rightarrow> string \<Rightarrow> bool) \<Rightarrow> 'a registry \<Rightarrow> request_context option \<Rightarrow> prim list
      \<Rightarrow> error + 'a nova_object list"
where
  "obj_from_primitive is_compat reg (PObj ns name ver data changes) ctx =
     (if ns \<noteq> ''nova'' then Inl (UnsupportedObjectError (ns @ ''.'' @ name))
      else
        (case obj_class_from_name is_compat reg name ver of
           Inl e \<Rightarrow> Inl e
         | Inr objclass \<Rightarrow> hydrate is_compat reg objclass ctx ver (PObj ns name ver data changes)))"
| "obj_from_primitive is_compat reg other ctx = Inl TypeError"
| "hydrate is_compat reg cls ctx objver (PObj ns name ver objdata changes) =
     (case from_primitive_fields is_compat reg (cls_fields cls) objdata
             (NovaObject cls objver ctx [] []) of
        Inl e \<Rightarrow> Inl e
      | Inr self \<Rightarrow>
          Inr (set_changed_fields self
                (remdups (filter (\<lambda>x. x \<in> fst ` set (cls_fields cls))
                   (case changes of None \<Rightarrow> [] | Some xs \<Rightarrow> xs)))))"
| "hydrate is_compat reg cls ctx objver other = Inl TypeError"
| "from_primitive_fields is_compat reg [] objdata self = Inr self"
| "from_primitive_fields is_compat reg ((name, field) # rest) objdata self =
     (case map_of objdata name of
        None \<Rightarrow> from_primitive_fields is_compat reg rest objdata self
      | Some p \<Rightarrow>
          (case field_from_primitive is_compat reg field (obj_context self) p of
             Inl e \<Rightarrow> Inl e
           | Inr v \<Rightarrow> from_primitive_fields is_compat reg rest objdata (setattr self name v)))"
| "field_from_primitive is_compat reg field ctx PNone = Inr VNone"
| "field_from_primitive is_compat reg ObjectField ctx p =
     (case obj_from_primitive is_compat reg p ctx of
        Inl e \<Rightarrow> Inl e
      | Inr obj \<Rightarrow> Inr (VObj obj))"
| "field_from_primitive is_compat reg ListOfObjectsField ctx (PList ps) =
     (case objects_from_primitive is_compat reg ctx ps of
        Inl e \<Rightarrow> Inl e
      | Inr objs \<Rightarrow> Inr (VList objs))"
| "field_from_primitive is_compat reg ListOfObjectsField ctx p = Inl TypeError"
| "field_from_primitive is_compat reg (Field to_prim from_prim) ctx p =
     (case from_prim p of
        Inl e \<Rightarrow> Inl e
      | Inr x \<Rightarrow> Inr (VScalar x))"
| "objects_from_primitive is_compat reg ctx [] = Inr []"
| "objects_from_primitive is_compat reg ctx (p # ps) =
     (case obj_from_primitive is_compat reg p ctx of
        Inl e \<Rightarrow> Inl e
      | Inr obj \<Rightarrow>
          (case objects_from_primitive is_compat reg ctx ps of
             Inl e \<Rightarrow> Inl e
           | Inr objs \<Rightarrow> Inr (obj # objs)))"
  by pat_completeness auto
termination
  apply (relation "inv_image (less_than <*lex*> less_than <*lex*> less_than)
    (\<lambda>x. case x of
       Inl (Inl (is_compat, reg, p, ctx)) \<Rightarrow> (size p, 3::nat, 0::nat)
     | Inl (Inr (is_compat, reg, cls, ctx, objver, p)) \<Rightarrow> (size p, 2, 0)
     | Inr (Inl (is_compat, reg, fs, objdata, self)) \<Rightarrow>
         (Suc (size_list (size_prod (\<lambda>x. 0) size) objdata), 1, length fs)
     | Inr (Inr (Inl (is_compat, reg, f, ctx, p))) \<Rightarrow> (size p, 4, 0)
     | Inr (Inr (Inr (is_compat, reg, ctx, ps))) \<Rightarrow> (size_list size ps, 5, 0))")
  apply (auto dest: size_data_less)
  done

subsection \<open>The deserializer of the RPC serializer\<close>

lemma length_split_on: "length (split_on c s) = Suc (count_list s c)"
  by (induction s) (auto split: list.splits)

lemma split_on_parts: "p \<in> set (split_on c s) \<Longrightarrow> count_list p c = 0"
  by (induction s arbitrary: p) (auto split: list.splits if_splits)

lemma count_list_join_with:
  "\<forall>p \<in> set ps. count_list p c = 0 \<Longrightarrow> count_list (join_with c ps) c = length ps - 1"
  by (induction c ps rule: join_with.induct) auto

lemma count_list_truncated:
  "count_list (join_with c (take 2 (split_on c s))) c \<le> 1"
proof -
  have "\<forall>p \<in> set (take 2 (split_on c s)). count_list p c = 0"
    by (meson in_set_takeD split_on_parts)
  then have "count_list (join_with c (take 2 (split_on c s))) c = length (take 2 (split_on c s)) - 1"
    by (rule count_list_join_with)
  then show ?thesis by simp
qed

text \<open>
  \<^verbatim>\<open>NovaObjectSerializer._process_object(context, objprim)\<close>. \<open>object_backport\<close> is
  \<^verbatim>\<open>self.conductor.object_backport\<close>, the call to the conductor service.
  \<^verbatim>\<open>objver.count('.')\<close> is \<open>count_list objver CHR ''.''\<close>; the assignment to
  \<^verbatim>\<open>objprim['nova_object.version']\<close> changes the primitive the recursive call and the
  conductor see.
\<close>

function process_object ::
  "(string \<Rightarrow> string \<Rightarrow> bool) \<Rightarrow> 'a registry
    \<Rightarrow> (request_context option \<Rightarrow> prim \<Rightarrow> string \<Rightarrow> error + 'a nova_object)
    \<Rightarrow> request_context option \<Rightarrow> prim \<Rightarrow> error + 'a nova_object"
where
  "process_object is_compat reg object_backport ctx objprim =
     (case obj_from_primitive is_compat reg objprim ctx of
        Inr objinst \<Rightarrow> Inr objinst
      | Inl (IncompatibleObjectVersion n v s) \<Rightarrow>
          (case objprim of
             PObj ns objname objver data changes \<Rightarrow>
               if count_list objver CHR ''.'' = 2 then
                 process_object is_compat reg object_backport ctx
                   (PObj ns objname (join_with CHR ''.'' (take 2 (split_on CHR ''.'' objver)))
                      data changes)
               else
                 (case (case map_of reg objname of None \<Rightarrow> [] | Some classes \<Rightarrow> classes) of
                    [] \<Rightarrow> Inl (IncompatibleObjectVersion n v s)
                  | latest # older \<Rightarrow> object_backport ctx objprim (VERSION latest))
           | other \<Rightarrow> Inl TypeError)
      | Inl e \<Rightarrow> Inl e)"
  by pat_completeness auto
termination
proof (relation "measure (\<lambda>(is_compat, reg, object_backport, ctx, objprim).
    case objprim of
      PObj ns objname objver data changes \<Rightarrow> if count_list objver CHR ''.'' = 2 then 1 else 0
    | other \<Rightarrow> 0)")
  show "wf (measure (\<lambda>(is_compat, reg, object_backport, ctx, objprim).
    case objprim of
      PObj ns objname objver data changes \<Rightarrow>
        if count_list objver CHR ''.'' = 2 then 1 else (0::nat)
    | other \<Rightarrow> 0))"
    by simp
next
  fix is_compat :: "string \<Rightarrow> string \<Rightarrow> bool" and reg :: "'a registry"
    and object_backport :: "request_context option \<Rightarrow> prim \<Rightarrow> string \<Rightarrow> error + 'a nova_object"
    and ctx :: "request_context option" and objprim ns objname objver data changes
  assume "objprim = PObj ns objname objver data changes" and "count_list objver CHR ''.'' = 2"
  moreover have "count_list (join_with CHR ''.'' (take 2 (split_on CHR ''.'' objver))) CHR ''.'' \<noteq> 2"
    using count_list_truncated [of "CHR ''.''" objver] by simp
  ultimately show "((is_compat, reg, object_backport, ctx,
      PObj ns objname (join_with CHR ''.'' (take 2 (split_on CHR ''.'' objver))) data changes),
     (is_compat, reg, object_backport, ctx, objprim))
    \<in> measure (\<lambda>(is_compat, reg, object_backport, ctx, objprim).
        case objprim of
          PObj ns objname objver data changes \<Rightarrow>
            if count_list objver CHR ''.'' = 2 then 1 else (0::nat)
        | other \<Rightarrow> 0)"
    by simp
qed

subsection \<open>Remotable methods\<close>

text \<open>
  A positional argument of a remotable call is a \<^verbatim>\<open>RequestContext\<close> or another value
  (\<^verbatim>\<open>isinstance(args[0], context.RequestContext)\<close> tells them apart). A value of the
  dict \<open>updates\<close> that the indirection service returns is a \<^verbatim>\<open>NovaObject\<close>, already
  hydrated by the serializer, or a primitive.
\<close>

datatype 'a arg = ContextArg request_context | ValueArg "'a pyval"

datatype 'a update = ObjectUpdate "'a nova_object" | PrimUpdate prim

type_synonym ('a, 'r) remotable_fn =
  "'a nova_object \<Rightarrow> 'a arg list \<Rightarrow> (string \<times> 'a arg) list \<Rightarrow> error + 'a nova_object \<times> 'r"

type_synonym ('a, 'r) object_action =
  "request_context \<Rightarrow> 'a nova_object \<Rightarrow> string \<Rightarrow> 'a arg list \<Rightarrow> (string \<times> 'a arg) list
    \<Rightarrow> error + (string \<times> 'a update) list \<times> 'r"

text \<open>The loop of the wrapper over \<^verbatim>\<open>six.iteritems(updates)\<close>.\<close>

fun apply_updates ::
  "(string \<Rightarrow> string \<Rightarrow> bool) \<Rightarrow> 'a registry \<Rightarrow> (string \<times> 'a update) list \<Rightarrow> 'a nova_object
    \<Rightarrow> error + 'a nova_object"
where
  "apply_updates is_compat reg [] self = Inr self"
| "apply_updates is_compat reg ((key, upd) # rest) self =
     (case map_of (cls_fields (obj_class self)) key of
        None \<Rightarrow> apply_updates is_compat reg rest self
      | Some field \<Rightarrow>
          (case upd of
             ObjectUpdate obj \<Rightarrow> apply_updates is_compat reg rest (setattr self key (VObj obj))
           | PrimUpdate p \<Rightarrow>
               (case field_from_primitive is_compat reg field (obj_context self) p of
                  Inl e \<Rightarrow> Inl e
                | Inr v \<Rightarrow> apply_updates is_compat reg rest (setattr self key v))))"

text \<open>\<^verbatim>\<open>set(updates.get('obj_what_changed', []))\<close>: the names are strings.\<close>

fun names_of_prims :: "prim list \<Rightarrow> error + string list" where
  "names_of_prims [] = Inr []"
| "names_of_prims (PStr s # ps) =
     (case names_of_prims ps of Inl e \<Rightarrow> Inl e | Inr names \<Rightarrow> Inr (s # names))"
| "names_of_prims (other # ps) = Inl TypeError"

definition updates_what_changed :: "(string \<times> 'a update) list \<Rightarrow> error + string list" where
  "updates_what_changed updates =
     (case map_of updates ''obj_what_changed'' of
        None \<Rightarrow> Inr []
      | Some (PrimUpdate (PList ps)) \<Rightarrow>
          (case names_of_prims ps of Inl e \<Rightarrow> Inl e | Inr names \<Rightarrow> Inr (remdups names))
      | Some other \<Rightarrow> Inl TypeError)"

text \<open>
  The wrapper that the decorator \<^verbatim>\<open>remotable(fn)\<close> returns. \<open>fn_name\<close> is
  \<^verbatim>\<open>fn.__name__\<close>, \<open>fn\<close> the decorated method (it may change \<open>self\<close>, so it returns the
  object with its result), \<open>indirection_api\<close> is \<^verbatim>\<open>NovaObject.indirection_api\<close>:
  \<open>None\<close>, or the \<^verbatim>\<open>object_action\<close> of the indirection service.
\<close>

definition remotable ::
  "string \<Rightarrow> ('a, 'r) remotable_fn \<Rightarrow> (string \<Rightarrow> string \<Rightarrow> bool) \<Rightarrow> 'a registry
    \<Rightarrow> ('a, 'r) object_action option
    \<Rightarrow> 'a nova_object \<Rightarrow> 'a arg list \<Rightarrow> (string \<times> 'a arg) list \<Rightarrow> error + 'a nova_object \<times> 'r"
where
  "remotable fn_name fn is_compat reg indirection_api self args kwargs =
     (if (case args of ContextArg c # rest \<Rightarrow> True | _ \<Rightarrow> False) then
        Inl (ObjectActionError fn_name ''Calling remotables with context is deprecated'')
      else
        (case obj_context self of
           None \<Rightarrow> Inl (OrphanedObjectError fn_name (obj_name (obj_class self)))
         | Some ctx \<Rightarrow>
             (case indirection_api of
                None \<Rightarrow> fn self args kwargs
              | Some object_action \<Rightarrow>
                  (case object_action ctx self fn_name args kwargs of
                     Inl e \<Rightarrow> Inl e
                   | Inr (updates, result) \<Rightarrow>
                       (case apply_updates is_compat reg updates self of
                          Inl e \<Rightarrow> Inl e
                        | Inr self' \<Rightarrow>
                            (case obj_reset_changes self' None False of
                               Inl e \<Rightarrow> Inl e
                             | Inr self'' \<Rightarrow>
                                 (case updates_what_changed updates of
                                    Inl e \<Rightarrow> Inl e
                                  | Inr names \<Rightarrow>
                                      Inr (set_changed_fields self'' names, result))))))))"

text \<open>
  The order of the classes of a name in the registry: the version tuple of a class, and
  "the highest version first".
\<close>

definition version_key :: "'a objclass \<Rightarrow> nat list" where
  "version_key objclass =
     (case convert_version_to_tuple (VERSION objclass) of Inr t \<Rightarrow> t | Inl e \<Rightarrow> [])"

definition highest_first :: "'a objclass list \<Rightarrow> bool" where
  "highest_first classes = sorted_wrt (\<lambda>c d. version_key d \<le> version_key c) classes"

subsection \<open>Equality of objects ignoring changes\<close>

lemma size_snd_less:
  "(k, p) \<in> set kvs \<Longrightarrow> size (p :: prim) < Suc (size_list (size_prod (\<lambda>x. 0) size) kvs)"
  by (induction kvs) auto

lemma size_elem_less: "x \<in> set xs \<Longrightarrow> f x < Suc (size_list f xs)"
  by (induction xs) auto

text \<open>
  The inner function \<^verbatim>\<open>_strip(prim, keys)\<close> of \<^verbatim>\<open>obj_equal_prims\<close>: it pops the keys
  from every dict and goes on into the values of a dict and the elements of a list. In
  the dict of an object the key \<^verbatim>\<open>nova_object.changes\<close> is popped if it is among the
  keys, and the dict under \<^verbatim>\<open>nova_object.data\<close> is stripped; the keys are taken not to
  name one of the four other keys of an object's dict.
\<close>

function strip :: "string list \<Rightarrow> prim \<Rightarrow> prim" where
  "strip keys (PDict kvs) =
     PDict (map (\<lambda>(k, v). (k, strip keys v)) (filter (\<lambda>(k, v). k \<notin> set keys) kvs))"
| "strip keys (PList ps) = PList (map (strip keys) ps)"
| "strip keys (PObj ns name ver data changes) =
     PObj ns name ver
       (map (\<lambda>(k, v). (k, strip keys v)) (filter (\<lambda>(k, v). k \<notin> set keys) data))
       (if ''nova_object.changes'' \<in> set keys then None else changes)"
| "strip keys PNone = PNone"
| "strip keys (PBool b) = PBool b"
| "strip keys (PInt i) = PInt i"
| "strip keys (PStr s) = PStr s"
  by pat_completeness auto
termination
  by (relation "measure (\<lambda>(keys, p). size p)") (auto dest: size_snd_less simp: size_elem_less)

text \<open>
  \<^verbatim>\<open>obj_equal_prims(obj_1, obj_2, ignore)\<close>: the primitives of the two objects, stripped
  of \<^verbatim>\<open>nova_object.changes\<close> and of the keys to ignore, are compared.
\<close>

definition obj_equal_prims ::
  "'a nova_object \<Rightarrow> 'a nova_object \<Rightarrow> string list option \<Rightarrow> error + bool"
where
  "obj_equal_prims obj_1 obj_2 ignore =
     (let keys = (case ignore of None \<Rightarrow> [''nova_object.changes'']
                  | Some names \<Rightarrow> ''nova_object.changes'' # names)
      in case obj_to_primitive obj_1 None of
           Inl e \<Rightarrow> Inl e
         | Inr prim_1 \<Rightarrow>
             (case obj_to_primitive obj_2 None of
                Inl e \<Rightarrow> Inl e
              | Inr prim_2 \<Rightarrow> Inr (strip keys prim_1 = strip keys prim_2)))"

text \<open>
  Two values of a field are the same, ignoring changes: both \<^verbatim>\<open>None\<close>, equal scalars,
  or objects (lists of objects) that \<^verbatim>\<open>obj_equal_prims\<close> finds equal.
\<close>

fun same_value :: "'a pyval \<Rightarrow> 'a pyval \<Rightarrow> bool" where
  "same_value VNone VNone = True"
| "same_value (VScalar x) (VScalar y) = (x = y)"
| "same_value (VObj a) (VObj b) = (obj_equal_prims a b None = Inr True)"
| "same_value (VList as) (VList bs) =
     list_all2 (\<lambda>a b. obj_equal_prims a b None = Inr True) as bs"
| "same_value v w = False"

text \<open>
  What a round trip through the wire needs of an object and, recursively, of the objects
  in its fields: the registry resolves its name and version to its class; the names of
  its fields are distinct (\<^verbatim>\<open>fields\<close> is a dict); a field that is set holds \<^verbatim>\<open>None\<close>
  or a value of its kind, a scalar being one that the descriptor's \<open>from_primitive\<close>
  reads back from what its \<open>to_primitive\<close> wrote.
\<close>

function (sequential) hydratable ::
    "(string \<Rightarrow> string \<Rightarrow> bool) \<Rightarrow> 'a registry \<Rightarrow> 'a nova_object \<Rightarrow> bool"
  and hydratable_value ::
    "(string \<Rightarrow> string \<Rightarrow> bool) \<Rightarrow> 'a registry \<Rightarrow> 'a field \<Rightarrow> 'a pyval \<Rightarrow> bool"
where
  "hydratable is_compat reg obj =
     (obj_class_from_name is_compat reg (obj_name (obj_class obj)) (obj_VERSION obj)
        = Inr (obj_class obj) \<and>
      distinct (map fst (cls_fields (obj_class obj))) \<and>
      (\<forall>(k, f) \<in> set (cls_fields (obj_class obj)).
         case getattr obj k of Inl e \<Rightarrow> True | Inr v \<Rightarrow> hydratable_value is_compat reg f v))"
| "hydratable_value is_compat reg f VNone = True"
| "hydratable_value is_compat reg ObjectField (VObj child) = hydratable is_compat reg child"
| "hydratable_value is_compat reg ListOfObjectsField (VList children) =
     (\<forall>child \<in> set children. hydratable is_compat reg child)"
| "hydratable_value is_compat reg (Field to_prim from_prim) (VScalar x) =
     (to_prim x \<noteq> PNone \<and> from_prim (to_prim x) = Inr x)"
| "hydratable_value is_compat reg f v = False"
  by pat_completeness auto
termination
  by (relation "measure (\<lambda>x. case x of
       Inl (is_compat, reg, obj) \<Rightarrow> size obj
     | Inr (is_compat, reg, f, v) \<Rightarrow> size v)")
    (auto dest: getattr_size simp: size_elem_less)

subsection \<open>Notions for the round trip\<close>

text \<open>
  The entries that a loop over the fields \<open>fs\<close> adds to a dict: for every field whose
  name \<open>g\<close> knows, in the order of \<open>fs\<close>, the name with \<open>h\<close> of the field and the value.
\<close>

definition entries ::
  "(string \<Rightarrow> 'v option) \<Rightarrow> ('f \<Rightarrow> 'v \<Rightarrow> 'w) \<Rightarrow> (string \<times> 'f) list \<Rightarrow> (string \<times> 'w) list"
where
  "entries g h fs =
     concat (map (\<lambda>(k, f). case g k of None \<Rightarrow> [] | Some v \<Rightarrow> [(k, h f v)]) fs)"

text \<open>Stripping the changes, as \<^verbatim>\<open>obj_equal_prims\<close> does when nothing else is ignored.\<close>

definition strip_changes :: "prim \<Rightarrow> prim" where
  "strip_changes = strip [''nova_object.changes'']"

text \<open>
  The round trip of a value of a field and of an object, as the proof by induction on
  the object needs it: the value is dehydrated, what was written is hydrated under any
  context to a value that is the same ignoring changes, and dehydrating that again gives
  the same primitive up to the changes.
\<close>

definition rt_value ::
  "(string \<Rightarrow> string \<Rightarrow> bool) \<Rightarrow> 'a registry \<Rightarrow> 'a field \<Rightarrow> 'a pyval \<Rightarrow> bool"
where
  "rt_value is_compat reg f v =
     (\<forall>ctx. \<exists>p v'. field_to_primitive f v = Inr p \<and>
        field_from_primitive is_compat reg f ctx p = Inr v' \<and> same_value v' v \<and>
        (\<exists>p'. field_to_primitive f v' = Inr p' \<and> strip_changes p' = strip_changes p))"

definition rt_object ::
  "(string \<Rightarrow> string \<Rightarrow> bool) \<Rightarrow> 'a registry \<Rightarrow> 'a nova_object \<Rightarrow> bool"
where
  "rt_object is_compat reg obj =
     (\<forall>ctx. \<exists>p obj'. obj_to_primitive obj None = Inr p \<and>
        obj_from_primitive is_compat reg p ctx = Inr obj' \<and>
        (\<forall>(k, f) \<in> set (cls_fields (obj_class obj)).
           rel_option same_value (map_of (obj_attrs obj') k) (map_of (obj_attrs obj) k)) \<and>
        (\<exists>p'. obj_to_primitive obj' None = Inr p' \<and> strip_changes p' = strip_changes p))"


subsection \<open>Example classes and objects\<close>

text \<open>
  The objects at which the theorems below are instantiated: an owner with the
  relationship table of the spec's backport example for its field \<open>child\<close>.
\<close>

definition ex_child_cls :: "nat objclass" where
  "ex_child_cls = \<lparr>obj_name = ''Child'', VERSION = ''1.2'',
     cls_fields = [(''x'', Field (\<lambda>n. PInt (int n))
        (\<lambda>p. case p of PInt i \<Rightarrow> Inr (nat i) | _ \<Rightarrow> Inl (ValueError ''x'')))],
     obj_extra_fields = [], obj_relationships = []\<rparr>"

definition ex_owner_cls :: "nat objclass" where
  "ex_owner_cls = \<lparr>obj_name = ''Owner'', VERSION = ''1.5'',
     cls_fields = [(''child'', ObjectField)],
     obj_extra_fields = [],
     obj_relationships = [(''child'', [(''1.2'', ''1.0''), (''1.4'', ''1.2'')])]\<rparr>"

definition ex_child :: "nat nova_object" where
  "ex_child = NovaObject ex_child_cls ''1.2'' None [(''x'', VScalar 7)] [''x'']"

definition ex_owner :: "nat nova_object" where
  "ex_owner = NovaObject ex_owner_cls ''1.5'' None [(''child'', VObj ex_child)] []"


text \<open>
  A registry with the versions 1.3 and 1.0 of a class \<open>Foo\<close>, the highest first, as in
  the spec's example of version resolution.
\<close>

definition ex_foo_13 :: "nat objclass" where
  "ex_foo_13 = \<lparr>obj_name = ''Foo'', VERSION = ''1.3'', cls_fields = [(''child'', ObjectField)],
     obj_extra_fields = [], obj_relationships = []\<rparr>"

definition ex_foo_10 :: "nat objclass" where
  "ex_foo_10 = \<lparr>obj_name = ''Foo'', VERSION = ''1.0'', cls_fields = [],
     obj_extra_fields = [], obj_relationships = []\<rparr>"

definition ex_registry :: "nat registry" where
  "ex_registry = [(''Foo'', [ex_foo_13, ex_foo_10]), (''Child'', [ex_child_cls]),
     (''Owner'', [ex_owner_cls])]"

text \<open>
  An owner class with two composed fields and a relationship table for the first one
  only; one object of it with only \<open>child\<close> set, one with \<open>other\<close> set as well.
\<close>

definition ex_norule_cls :: "nat objclass" where
  "ex_norule_cls = \<lparr>obj_name = ''NoRule'', VERSION = ''1.5'',
     cls_fields = [(''child'', ObjectField), (''other'', ObjectField)],
     obj_extra_fields = [],
     obj_relationships = [(''child'', [(''1.2'', ''1.0''), (''1.4'', ''1.2'')])]\<rparr>"

definition ex_norule_unset :: "nat nova_object" where
  "ex_norule_unset = NovaObject ex_norule_cls ''1.5'' None [] []"

definition ex_norule_set :: "nat nova_object" where
  "ex_norule_set = NovaObject ex_norule_cls ''1.5'' None
     [(''child'', VObj ex_child), (''other'', VObj ex_child)] []"

text \<open>
  An owner whose field \<open>kids\<close> is a \<^verbatim>\<open>ListOfObjectsField\<close> and whose field \<open>child\<close> is
  an \<^verbatim>\<open>ObjectField\<close>: one object that is unchanged itself and holds a list with a
  changed child, one that has both fields set and changed.
\<close>

definition ex_list_cls :: "nat objclass" where
  "ex_list_cls = \<lparr>obj_name = ''ListOwner'', VERSION = ''1.0'',
     cls_fields = [(''kids'', ListOfObjectsField), (''child'', ObjectField)],
     obj_extra_fields = [],
     obj_relationships = [(''kids'', [(''1.0'', ''1.2'')]), (''child'', [(''1.0'', ''1.2'')])]\<rparr>"

definition ex_list_owner :: "nat nova_object" where
  "ex_list_owner = NovaObject ex_list_cls ''1.0'' None [(''kids'', VList [ex_child])] []"

definition ex_dirty_owner :: "nat nova_object" where
  "ex_dirty_owner = NovaObject ex_list_cls ''1.0'' None
     [(''kids'', VList [ex_child]), (''child'', VObj ex_child)] [''kids'', ''child'']"

definition ex_clean_child :: "nat nova_object" where
  "ex_clean_child = NovaObject ex_child_cls ''1.2'' None [(''x'', VScalar 7)] []"

text \<open>
  A compatibility relation that compares the whole version tuples (same MAJOR, and the
  registered version not below the requested one, PATCH included): under it the
  requested version 1.3.1 is not compatible with the registered version 1.3.
\<close>

definition ex_strict_compatible :: "string \<Rightarrow> string \<Rightarrow> bool" where
  "ex_strict_compatible requested_version current_version =
     (case (convert_version_to_tuple requested_version,
            convert_version_to_tuple current_version) of
        (Inr requested, Inr current) \<Rightarrow>
          version_major current = version_major requested \<and> requested \<le> current
      | _ \<Rightarrow> False)"

text \<open>A backport authority that answers with an empty object of the class \<open>Foo\<close> 1.3.\<close>

definition ex_backport :: "request_context option \<Rightarrow> prim \<Rightarrow> string \<Rightarrow> error + nat nova_object" where
  "ex_backport ctx objprim target_version = Inr (NovaObject ex_foo_13 target_version ctx [] [])"

subsection \<open>Facts about the attribute operations\<close>

lemma setattr_sel [simp]:
  "obj_class (setattr self name v) = obj_class self"
  "obj_VERSION (setattr self name v) = obj_VERSION self"
  "obj_context (setattr self name v) = obj_context self"
  "obj_attrs (setattr self name v) = AList.update name v (obj_attrs self)"
  "obj_changed_fields (setattr self name v) = List.insert name (obj_changed_fields self)"
  by (cases self; simp)+

lemma store_attr_sel [simp]:
  "obj_class (store_attr self name v) = obj_class self"
  "obj_VERSION (store_attr self name v) = obj_VERSION self"
  "obj_context (store_attr self name v) = obj_context self"
  "obj_attrs (store_attr self name v) = AList.update name v (obj_attrs self)"
  "obj_changed_fields (store_attr self name v) = obj_changed_fields self"
  by (cases self; simp)+

lemma set_changed_fields_sel [simp]:
  "obj_class (set_changed_fields self names) = obj_class self"
  "obj_VERSION (set_changed_fields self names) = obj_VERSION self"
  "obj_context (set_changed_fields self names) = obj_context self"
  "obj_attrs (set_changed_fields self names) = obj_attrs self"
  "obj_changed_fields (set_changed_fields self names) = names"
  by (cases self; simp)+

lemma from_primitive_fields_sel:
  assumes "from_primitive_fields is_compat reg fs objdata self = Inr self'"
  shows "obj_class self' = obj_class self \<and> obj_VERSION self' = obj_VERSION self
    \<and> obj_context self' = obj_context self"
  using assms
proof (induction fs arbitrary: self)
  case Nil
  then show ?case by simp
next
  case (Cons f fs)
  obtain name field where f: "f = (name, field)" by (cases f)
  show ?case
  proof (cases "map_of objdata name")
    case None
    with Cons f show ?thesis by simp
  next
    case (Some p)
    with Cons.prems f obtain v where
      "field_from_primitive is_compat reg field (obj_context self) p = Inr v"
      and "from_primitive_fields is_compat reg fs objdata (setattr self name v) = Inr self'"
      by (auto split: sum.splits)
    from Cons.IH [OF this(2)] show ?thesis by simp
  qed
qed

lemma hydrate_sel:
  assumes "hydrate is_compat reg cls ctx objver p = Inr self"
  shows "obj_class self = cls \<and> obj_VERSION self = objver \<and> obj_context self = ctx"
proof (cases p)
  case (PObj ns name ver objdata changes)
  with assms obtain self0 where
    "from_primitive_fields is_compat reg (cls_fields cls) objdata (NovaObject cls objver ctx [] [])
       = Inr self0"
    and "self = set_changed_fields self0
       (remdups (filter (\<lambda>x. x \<in> fst ` set (cls_fields cls))
          (case changes of None \<Rightarrow> [] | Some xs \<Rightarrow> xs)))"
    by (auto split: sum.splits)
  with from_primitive_fields_sel [OF this(1)] show ?thesis by simp
qed (use assms in simp_all)

subsection \<open>The child version of a backport\<close>


lemma calculate_loop_skip:
  assumes "list_all2 (\<lambda>r t. convert_version_to_tuple (fst r) = Inr t) rest vs"
    and "i \<le> length rest" and "\<forall>j<i. vs ! j < tv"
  shows "calculate_loop tv rel index rest = calculate_loop tv rel (index + i) (drop i rest)"
  using assms
proof (induction rest arbitrary: vs i index)
  case Nil
  then show ?case by simp
next
  case (Cons r rest)
  obtain mv cv where r: "r = (mv, cv)" by (cases r)
  from Cons.prems(1) obtain v vs' where vs: "vs = v # vs'"
    and v: "convert_version_to_tuple mv = Inr v"
    and rest: "list_all2 (\<lambda>r t. convert_version_to_tuple (fst r) = Inr t) rest vs'"
    by (auto simp: list_all2_Cons1 r)
  show ?case
  proof (cases i)
    case 0
    then show ?thesis by simp
  next
    case (Suc i')
    with Cons.prems(3) vs have "v < tv" and later: "\<forall>j<i'. vs' ! j < tv" by auto
    from Cons.prems(2) Suc have "i' \<le> length rest" by simp
    from \<open>v < tv\<close> have "\<not> tv < v" and "tv \<noteq> v" by auto
    with Cons.IH [OF rest \<open>i' \<le> length rest\<close> later, of "Suc index"] show ?thesis
      by (simp add: r v Suc)
  qed
qed

lemma calculate_loop_at:
  assumes all: "list_all2 (\<lambda>r t. convert_version_to_tuple (fst r) = Inr t) rel vs"
    and i: "i < length rel" and before: "\<forall>j<i. vs ! j < tv"
  shows "calculate_loop tv rel 0 rel =
    (if tv < vs ! i then (if i = 0 then Inr None else Inr (Some (snd (rel ! (i - 1)))))
     else if tv = vs ! i then Inr (Some (snd (rel ! i)))
     else calculate_loop tv rel (Suc i) (drop (Suc i) rel))"
proof -
  from i have "drop i rel = rel ! i # drop (Suc i) rel" by (simp add: Cons_nth_drop_Suc)
  moreover from all i have "convert_version_to_tuple (fst (rel ! i)) = Inr (vs ! i)"
    by (simp add: list_all2_conv_all_nth)
  moreover from calculate_loop_skip [OF all _ before, of rel 0] i
  have "calculate_loop tv rel 0 rel = calculate_loop tv rel i (drop i rel)" by simp
  ultimately show ?thesis by (cases "rel ! i") auto
qed

lemma calculate_loop_above:
  assumes all: "list_all2 (\<lambda>r t. convert_version_to_tuple (fst r) = Inr t) rel vs"
    and "rel \<noteq> []" and before: "\<forall>j<length rel. vs ! j < tv"
  shows "calculate_loop tv rel 0 rel = Inr (Some (snd (last rel)))"
proof -
  from calculate_loop_skip [OF all _ before, of rel 0]
  have "calculate_loop tv rel 0 rel = calculate_loop tv rel (length rel) []" by simp
  with \<open>rel \<noteq> []\<close> show ?thesis by (cases rel) auto
qed

lemma sorted_before:
  assumes "sorted_wrt (<) (vs :: nat list list)" and "i < length vs" and "vs ! i < tv" and "j \<le> i"
  shows "vs ! j < tv"
proof (cases "j = i")
  case True
  with assms(3) show ?thesis by simp
next
  case False
  with assms(4) have "j < i" by simp
  with assms(1,2) have "vs ! j < vs ! i" by (simp add: sorted_wrt_nth_less)
  with assms(3) show ?thesis by simp
qed


lemmas version_simps = convert_version_to_tuple_def int_of_str_def is_digit_def

lemma child_version_below_first:
  assumes rel: "map_of (obj_relationships (obj_class self)) child = Some rel"
    and vs: "list_all2 (\<lambda>r t. convert_version_to_tuple (fst r) = Inr t) rel vs"
    and tv: "convert_version_to_tuple target_version = Inr tv"
    and "rel \<noteq> []" and "tv < vs ! 0"
  shows "obj_calculate_child_version self target_version child = Inr None"
  using calculate_loop_at [OF vs, of 0 tv] assms
  by (simp add: obj_calculate_child_version_def)

lemma child_version_between:
  assumes rel: "map_of (obj_relationships (obj_class self)) child = Some rel"
    and vs: "list_all2 (\<lambda>r t. convert_version_to_tuple (fst r) = Inr t) rel vs"
    and sorted: "sorted_wrt (<) vs"
    and tv: "convert_version_to_tuple target_version = Inr tv"
    and i: "0 < i" "i < length rel" and gap: "vs ! (i - 1) < tv" "tv < vs ! i"
  shows "obj_calculate_child_version self target_version child = Inr (Some (snd (rel ! (i - 1))))"
proof -
  from vs have len: "length vs = length rel" by (simp add: list_all2_lengthD)
  have "\<forall>j<i. vs ! j < tv"
  proof (intro allI impI)
    fix j assume "j < i"
    with i len gap(1) show "vs ! j < tv"
      by (intro sorted_before [OF sorted, of "i - 1" tv j]) auto
  qed
  from calculate_loop_at [OF vs i(2) this] gap(2) i(1) rel tv show ?thesis
    by (simp add: obj_calculate_child_version_def)
qed

lemma child_version_exact:
  assumes rel: "map_of (obj_relationships (obj_class self)) child = Some rel"
    and vs: "list_all2 (\<lambda>r t. convert_version_to_tuple (fst r) = Inr t) rel vs"
    and sorted: "sorted_wrt (<) vs"
    and tv: "convert_version_to_tuple target_version = Inr tv"
    and i: "i < length rel" and eq: "tv = vs ! i"
  shows "obj_calculate_child_version self target_version child = Inr (Some (snd (rel ! i)))"
proof -
  from vs have len: "length vs = length rel" by (simp add: list_all2_lengthD)
  have "\<forall>j<i. vs ! j < tv"
    using sorted i len eq by (simp add: sorted_wrt_nth_less)
  from calculate_loop_at [OF vs i this] eq rel tv show ?thesis
    by (simp add: obj_calculate_child_version_def)
qed

lemma child_version_above_last:
  assumes rel: "map_of (obj_relationships (obj_class self)) child = Some rel"
    and vs: "list_all2 (\<lambda>r t. convert_version_to_tuple (fst r) = Inr t) rel vs"
    and sorted: "sorted_wrt (<) vs"
    and tv: "convert_version_to_tuple target_version = Inr tv"
    and ne: "rel \<noteq> []" and above: "last vs \<le> tv"
  shows "obj_calculate_child_version self target_version child = Inr (Some (snd (last rel)))"
proof (cases "last vs = tv")
  case True
  from vs have len: "length vs = length rel" by (simp add: list_all2_lengthD)
  with ne True have "tv = vs ! (length rel - 1)" by (metis last_conv_nth length_0_conv)
  from child_version_exact [OF rel vs sorted tv _ this] ne show ?thesis
    by (simp add: last_conv_nth)
next
  case False
  from vs have len: "length vs = length rel" by (simp add: list_all2_lengthD)
  from False above have lt: "last vs < tv" by simp
  have "\<forall>j<length rel. vs ! j < tv"
  proof (intro allI impI)
    fix j assume j: "j < length rel"
    from len ne lt have "vs ! (length rel - 1) < tv" by (metis last_conv_nth length_0_conv)
    with j len show "vs ! j < tv"
      by (intro sorted_before [OF sorted, of "length rel - 1" tv j]) auto
  qed
  from calculate_loop_above [OF vs ne this] rel tv show ?thesis
    by (simp add: obj_calculate_child_version_def)
qed

lemma make_obj_compatible_delete:
  assumes "obj_calculate_child_version self target_version child = Inr None"
    and "map_of primitive child \<noteq> None"
  shows "obj_make_obj_compatible self primitive target_version child = Inr (AList.delete child primitive)"
  using assms by auto

lemma make_obj_compatible_same_version:
  assumes "obj_calculate_child_version self target_version child = Inr (Some v)"
    and "getattr self child = Inr (VObj obj)"
    and "map_of primitive child = Some (PObj ns name v data changes)"
  shows "obj_make_obj_compatible self primitive target_version child = Inr primitive"
  using assms by (simp add: update_triv)

lemma make_obj_compatible_stamps:
  assumes "obj_calculate_child_version self target_version child = Inr (Some v)"
    and "getattr self child = Inr (VObj obj)"
    and "map_of primitive child = Some (PObj ns name ver data changes)"
    and "obj_make_obj_compatible self primitive target_version child = Inr primitive'"
  shows "\<exists>data'. map_of primitive' child = Some (PObj ns name v data' changes)"
  using assms by (auto simp: update_conv' split: if_splits sum.splits)


text \<open>
  Claim C1, as amended. Let \<open>rel\<close> be the relationship table of the field \<open>child\<close>, its
  owner versions \<open>vs\<close> readable and strictly ascending, and \<open>tv\<close> the target version.
  Below the first owner version the child version is \<^verbatim>\<open>None\<close> and
  \<^verbatim>\<open>_obj_make_obj_compatible\<close> deletes the field from the primitive; strictly between
  the entries \<open>i - 1\<close> and \<open>i\<close> it is the child version of entry \<open>i - 1\<close>; at the owner
  version of entry \<open>i\<close> it is the child version of that entry; at or above the last
  owner version it is the child version of the last entry, and a child whose primitive
  is at that version already is left as it is. Whenever a child version \<open>v\<close> is
  computed for a child object, the child's primitive carries the version \<open>v\<close>
  afterwards. For the table \<^verbatim>\<open>[("1.2","1.0"), ("1.4","1.2")]\<close> that is: target "1.0"
  and target "1.1" delete the field, target "1.3" gives "1.0", targets "1.4" and "1.5"
  give "1.2".
\<close>

theorem C1_child_version_walk:
  assumes rel: "map_of (obj_relationships (obj_class self)) child = Some rel"
    and vs: "list_all2 (\<lambda>r t. convert_version_to_tuple (fst r) = Inr t) rel vs"
    and sorted: "sorted_wrt (<) vs"
    and tv: "convert_version_to_tuple target_version = Inr tv"
  shows
    "(rel \<noteq> [] \<and> tv < vs ! 0 \<longrightarrow>
        obj_calculate_child_version self target_version child = Inr None \<and>
        (\<forall>primitive. map_of primitive child \<noteq> None \<longrightarrow>
           obj_make_obj_compatible self primitive target_version child =
             Inr (AList.delete child primitive)))
     \<and> (\<forall>i. 0 < i \<and> i < length rel \<and> vs ! (i - 1) < tv \<and> tv < vs ! i \<longrightarrow>
           obj_calculate_child_version self target_version child =
             Inr (Some (snd (rel ! (i - 1)))))
     \<and> (\<forall>i. i < length rel \<and> tv = vs ! i \<longrightarrow>
           obj_calculate_child_version self target_version child = Inr (Some (snd (rel ! i))))
     \<and> (rel \<noteq> [] \<and> last vs \<le> tv \<longrightarrow>
           obj_calculate_child_version self target_version child = Inr (Some (snd (last rel))) \<and>
           (\<forall>primitive obj ns name data changes.
              getattr self child = Inr (VObj obj) \<and>
              map_of primitive child = Some (PObj ns name (snd (last rel)) data changes) \<longrightarrow>
              obj_make_obj_compatible self primitive target_version child = Inr primitive))
     \<and> (\<forall>v primitive primitive' obj ns name ver data changes.
           obj_calculate_child_version self target_version child = Inr (Some v) \<and>
           getattr self child = Inr (VObj obj) \<and>
           map_of primitive child = Some (PObj ns name ver data changes) \<and>
           obj_make_obj_compatible self primitive target_version child = Inr primitive' \<longrightarrow>
           (\<exists>data'. map_of primitive' child = Some (PObj ns name v data' changes)))"
proof (intro conjI allI impI)
  assume "rel \<noteq> [] \<and> tv < vs ! 0"
  then show below: "obj_calculate_child_version self target_version child = Inr None"
    using child_version_below_first [OF rel vs tv] by simp
  fix primitive :: "(string \<times> prim) list"
  assume "map_of primitive child \<noteq> None"
  with below show "obj_make_obj_compatible self primitive target_version child =
      Inr (AList.delete child primitive)"
    by (rule make_obj_compatible_delete)
next
  fix i assume "0 < i \<and> i < length rel \<and> vs ! (i - 1) < tv \<and> tv < vs ! i"
  then show "obj_calculate_child_version self target_version child =
      Inr (Some (snd (rel ! (i - 1))))"
    using child_version_between [OF rel vs sorted tv] by simp
next
  fix i assume "i < length rel \<and> tv = vs ! i"
  then show "obj_calculate_child_version self target_version child = Inr (Some (snd (rel ! i)))"
    using child_version_exact [OF rel vs sorted tv] by simp
next
  assume "rel \<noteq> [] \<and> last vs \<le> tv"
  then show above: "obj_calculate_child_version self target_version child =
      Inr (Some (snd (last rel)))"
    using child_version_above_last [OF rel vs sorted tv] by simp
  fix primitive :: "(string \<times> prim) list" and obj :: "'a nova_object" and ns name data changes
  assume "getattr self child = Inr (VObj obj) \<and>
    map_of primitive child = Some (PObj ns name (snd (last rel)) data changes)"
  with above show "obj_make_obj_compatible self primitive target_version child = Inr primitive"
    using make_obj_compatible_same_version by blast
next
  fix v primitive primitive' and obj :: "'a nova_object" and ns name ver data changes
  assume "obj_calculate_child_version self target_version child = Inr (Some v) \<and>
    getattr self child = Inr (VObj obj) \<and>
    map_of primitive child = Some (PObj ns name ver data changes) \<and>
    obj_make_obj_compatible self primitive target_version child = Inr primitive'"
  then show "\<exists>data'. map_of primitive' child = Some (PObj ns name v data' changes)"
    using make_obj_compatible_stamps by blast
qed

lemma ex_owner_rel:
  "map_of (obj_relationships (obj_class ex_owner)) ''child'' =
     Some [(''1.2'', ''1.0''), (''1.4'', ''1.2'')]"
  by (simp add: ex_owner_def ex_owner_cls_def)

lemma ex_owner_rel_versions:
  "list_all2 (\<lambda>r t. convert_version_to_tuple (fst r) = Inr t)
     [(''1.2'', ''1.0''), (''1.4'', ''1.2'')] [[1, 2], [1, 4]]"
  by (simp add: version_simps)

theorem C1_child_version_walk_witness:
  "obj_calculate_child_version ex_owner ''1.0'' ''child'' = Inr None
   \<and> obj_make_obj_compatible ex_owner [(''child'', PNone), (''other'', PInt 1)] ''1.0'' ''child''
       = Inr [(''other'', PInt 1)]
   \<and> obj_calculate_child_version ex_owner ''1.3'' ''child'' = Inr (Some ''1.0'')
   \<and> obj_calculate_child_version ex_owner ''1.4'' ''child'' = Inr (Some ''1.2'')
   \<and> obj_calculate_child_version ex_owner ''1.5'' ''child'' = Inr (Some ''1.2'')
   \<and> obj_make_obj_compatible ex_owner
        [(''child'', PObj ''nova'' ''Child'' ''1.2'' [(''x'', PInt 7)] None)] ''1.5'' ''child''
       = Inr [(''child'', PObj ''nova'' ''Child'' ''1.2'' [(''x'', PInt 7)] None)]"
proof -
  have sorted: "sorted_wrt (<) [[1, 2], [1, 4::nat]]" by simp
  have t0: "convert_version_to_tuple ''1.0'' = Inr [1, 0]"
    and t3: "convert_version_to_tuple ''1.3'' = Inr [1, 3]"
    and t4: "convert_version_to_tuple ''1.4'' = Inr [1, 4]"
    and t5: "convert_version_to_tuple ''1.5'' = Inr [1, 5]"
    by (simp_all add: version_simps)
  have child: "getattr ex_owner ''child'' = Inr (VObj ex_child)"
    by (simp add: getattr_def ex_owner_def)
  note w0 = C1_child_version_walk [OF ex_owner_rel ex_owner_rel_versions sorted t0]
  note w3 = C1_child_version_walk [OF ex_owner_rel ex_owner_rel_versions sorted t3]
  note w4 = C1_child_version_walk [OF ex_owner_rel ex_owner_rel_versions sorted t4]
  note w5 = C1_child_version_walk [OF ex_owner_rel ex_owner_rel_versions sorted t5]
  have p0: "[(''1.2'', ''1.0''), (''1.4'', ''1.2'')] \<noteq> [] \<and> [1, 0] < [[1, 2], [1, 4::nat]] ! 0"
    by simp
  from w0 p0 have a: "obj_calculate_child_version ex_owner ''1.0'' ''child'' = Inr None"
    by blast
  have "map_of [(''child'', PNone), (''other'', PInt 1)] ''child'' \<noteq> None" by simp
  with w0 p0 have "obj_make_obj_compatible ex_owner [(''child'', PNone), (''other'', PInt 1)]
      ''1.0'' ''child'' = Inr (AList.delete ''child'' [(''child'', PNone), (''other'', PInt 1)])"
    by blast
  moreover have "AList.delete ''child'' [(''child'', PNone), (''other'', PInt 1)]
      = [(''other'', PInt 1)]"
    by simp
  ultimately have b: "obj_make_obj_compatible ex_owner [(''child'', PNone), (''other'', PInt 1)]
      ''1.0'' ''child'' = Inr [(''other'', PInt 1)]"
    by (simp only:)
  have p3: "0 < (1::nat) \<and> 1 < length [(''1.2'', ''1.0''), (''1.4'', ''1.2'')]
      \<and> [[1, 2], [1, 4]] ! (1 - 1) < [1, 3::nat] \<and> [1, 3] < [[1, 2], [1, 4::nat]] ! 1"
    by simp
  with w3 have "obj_calculate_child_version ex_owner ''1.3'' ''child'' =
        Inr (Some (snd ([(''1.2'', ''1.0''), (''1.4'', ''1.2'')] ! (1 - 1))))"
    by blast
  then have c: "obj_calculate_child_version ex_owner ''1.3'' ''child'' = Inr (Some ''1.0'')"
    by simp
  have p4: "1 < length [(''1.2'', ''1.0''), (''1.4'', ''1.2'')]
      \<and> [1, 4::nat] = [[1, 2], [1, 4]] ! 1"
    by simp
  with w4 have "obj_calculate_child_version ex_owner ''1.4'' ''child'' =
        Inr (Some (snd ([(''1.2'', ''1.0''), (''1.4'', ''1.2'')] ! 1)))"
    by blast
  then have d: "obj_calculate_child_version ex_owner ''1.4'' ''child'' = Inr (Some ''1.2'')"
    by simp
  have p5: "[(''1.2'', ''1.0''), (''1.4'', ''1.2'')] \<noteq> [] \<and> last [[1, 2], [1, 4]] \<le> [1, 5::nat]"
    by simp
  have last: "snd (last [(''1.2'', ''1.0''), (''1.4'', ''1.2'')]) = ''1.2''" by simp
  from w5 p5 have e: "obj_calculate_child_version ex_owner ''1.5'' ''child'' = Inr (Some ''1.2'')"
    unfolding last by blast
  have "map_of [(''child'', PObj ''nova'' ''Child'' ''1.2'' [(''x'', PInt 7)] None)] ''child''
      = Some (PObj ''nova'' ''Child'' ''1.2'' [(''x'', PInt 7)] None)"
    by simp
  with w5 p5 child have f: "obj_make_obj_compatible ex_owner
        [(''child'', PObj ''nova'' ''Child'' ''1.2'' [(''x'', PInt 7)] None)] ''1.5'' ''child''
       = Inr [(''child'', PObj ''nova'' ''Child'' ''1.2'' [(''x'', PInt 7)] None)]"
    unfolding last by blast
  from a b c d e f show ?thesis by (simp only: simp_thms)
qed

text \<open>
  The spec's examples for the table \<^verbatim>\<open>[("1.2","1.0"), ("1.4","1.2")]\<close> say that target
  "1.1" yields "1.0" and target "1.3" yields "1.2". The code deletes the field at "1.1"
  (it is older than the first entry) and yields "1.0" at "1.3", as the comment above
  \<^verbatim>\<open>obj_relationships\<close> in base.py describes.
\<close>

theorem C1_examples_counterexample:
  "obj_calculate_child_version ex_owner ''1.1'' ''child'' = Inr None
   \<and> obj_calculate_child_version ex_owner ''1.1'' ''child'' \<noteq> Inr (Some ''1.0'')
   \<and> obj_calculate_child_version ex_owner ''1.3'' ''child'' = Inr (Some ''1.0'')
   \<and> obj_calculate_child_version ex_owner ''1.3'' ''child'' \<noteq> Inr (Some ''1.2'')"
  by (simp add: obj_calculate_child_version_def ex_owner_def ex_owner_cls_def version_simps)


subsection \<open>Registry resolution\<close>

lemma find_class_eq:
  "find_class is_compat objver classes compatible_match =
     (case find (\<lambda>c. VERSION c = objver) classes of
        Some c \<Rightarrow> Some c
      | None \<Rightarrow>
          (case compatible_match of
             Some m \<Rightarrow> Some m
           | None \<Rightarrow> find (\<lambda>c. is_compat objver (VERSION c)) classes))"
  by (induction classes arbitrary: compatible_match) (auto split: option.splits)

lemma highest_first_find:
  assumes "highest_first classes" and "find P classes = Some c" and "d \<in> set classes" and "P d"
  shows "version_key d \<le> version_key c"
  using assms unfolding highest_first_def
  by (induction classes) (auto split: if_splits)

lemma highest_first_head:
  assumes "highest_first (latest # older)" and "d \<in> set (latest # older)"
  shows "version_key d \<le> version_key latest"
  using assms unfolding highest_first_def by auto

text \<open>
  Claim C2. \<open>is_compat\<close> is \<^verbatim>\<open>versionutils.is_compatible\<close>. A name that is not registered
  is the \<^verbatim>\<open>UnsupportedObjectError\<close>; among the classes of a registered name the first
  one with the requested version is returned; if there is none, the first compatible one,
  which is the highest compatible one when the registry keeps the highest version first;
  if there is none either, the \<^verbatim>\<open>IncompatibleObjectVersion\<close> with the requested version
  and the version of the first class, the latest, as \<open>supported\<close>.
\<close>

theorem C2_registry_resolution:
  "(map_of reg objname = None \<longrightarrow>
      obj_class_from_name is_compat reg objname objver = Inl (UnsupportedObjectError objname))
   \<and> (\<forall>classes c. map_of reg objname = Some classes \<and>
         find (\<lambda>c. VERSION c = objver) classes = Some c \<longrightarrow>
         obj_class_from_name is_compat reg objname objver = Inr c)
   \<and> (\<forall>classes c. map_of reg objname = Some classes \<and>
         find (\<lambda>c. VERSION c = objver) classes = None \<and>
         find (\<lambda>c. is_compat objver (VERSION c)) classes = Some c \<longrightarrow>
         obj_class_from_name is_compat reg objname objver = Inr c \<and>
         (highest_first classes \<longrightarrow>
            (\<forall>d \<in> set classes. is_compat objver (VERSION d) \<longrightarrow> version_key d \<le> version_key c)))
   \<and> (\<forall>latest older. map_of reg objname = Some (latest # older) \<and>
         find (\<lambda>c. VERSION c = objver) (latest # older) = None \<and>
         find (\<lambda>c. is_compat objver (VERSION c)) (latest # older) = None \<longrightarrow>
         obj_class_from_name is_compat reg objname objver =
           Inl (IncompatibleObjectVersion objname objver (VERSION latest)) \<and>
         (highest_first (latest # older) \<longrightarrow>
            (\<forall>d \<in> set (latest # older). version_key d \<le> version_key latest)))"
proof (intro conjI allI impI ballI)
  assume "map_of reg objname = None"
  then show "obj_class_from_name is_compat reg objname objver = Inl (UnsupportedObjectError objname)"
    by (simp add: obj_class_from_name_def)
next
  fix classes c
  assume "map_of reg objname = Some classes \<and> find (\<lambda>c. VERSION c = objver) classes = Some c"
  then show "obj_class_from_name is_compat reg objname objver = Inr c"
    by (simp add: obj_class_from_name_def find_class_eq)
next
  fix classes c
  assume "map_of reg objname = Some classes \<and>
    find (\<lambda>c. VERSION c = objver) classes = None \<and>
    find (\<lambda>c. is_compat objver (VERSION c)) classes = Some c"
  then show "obj_class_from_name is_compat reg objname objver = Inr c"
    by (simp add: obj_class_from_name_def find_class_eq)
next
  fix classes c d
  assume "map_of reg objname = Some classes \<and>
    find (\<lambda>c. VERSION c = objver) classes = None \<and>
    find (\<lambda>c. is_compat objver (VERSION c)) classes = Some c"
    and "highest_first classes" and "d \<in> set classes" and "is_compat objver (VERSION d)"
  then show "version_key d \<le> version_key c"
    using highest_first_find [of classes "\<lambda>c. is_compat objver (VERSION c)" c d] by simp
next
  fix latest older
  assume "map_of reg objname = Some (latest # older) \<and>
    find (\<lambda>c. VERSION c = objver) (latest # older) = None \<and>
    find (\<lambda>c. is_compat objver (VERSION c)) (latest # older) = None"
  then show "obj_class_from_name is_compat reg objname objver =
    Inl (IncompatibleObjectVersion objname objver (VERSION latest))"
    by (simp add: obj_class_from_name_def find_class_eq)
next
  fix latest older d
  assume "highest_first (latest # older)" and "d \<in> set (latest # older)"
  then show "version_key d \<le> version_key latest"
    by (rule highest_first_head)
qed

lemma ex_registry_foo: "map_of ex_registry ''Foo'' = Some [ex_foo_13, ex_foo_10]"
  by (simp add: ex_registry_def)

lemma ex_foo_compatible:
  "is_compatible ''1.2'' (VERSION ex_foo_13)" "\<not> is_compatible ''1.2'' (VERSION ex_foo_10)"
  "\<not> is_compatible ''2.0'' (VERSION ex_foo_13)" "\<not> is_compatible ''2.0'' (VERSION ex_foo_10)"
  "is_compatible ''1.0'' (VERSION ex_foo_13)"
  by (simp_all add: is_compatible_def ex_foo_13_def ex_foo_10_def version_simps
      version_major_def version_minor_def)

theorem C2_registry_resolution_witness:
  "obj_class_from_name is_compatible ex_registry ''Bar'' ''1.0'' = Inl (UnsupportedObjectError ''Bar'')
   \<and> obj_class_from_name is_compatible ex_registry ''Foo'' ''1.0'' = Inr ex_foo_10
   \<and> obj_class_from_name is_compatible ex_registry ''Foo'' ''1.2'' = Inr ex_foo_13
   \<and> version_key ex_foo_10 \<le> version_key ex_foo_13
   \<and> obj_class_from_name is_compatible ex_registry ''Foo'' ''2.0''
       = Inl (IncompatibleObjectVersion ''Foo'' ''2.0'' ''1.3'')"
proof -
  have bar: "map_of ex_registry ''Bar'' = None" by (simp add: ex_registry_def)
  have v: "VERSION ex_foo_13 = ''1.3''" "VERSION ex_foo_10 = ''1.0''"
    by (simp_all add: ex_foo_13_def ex_foo_10_def)
  have hf: "highest_first [ex_foo_13, ex_foo_10]"
    by (simp add: highest_first_def version_key_def v version_simps)
  have exact10: "find (\<lambda>c. VERSION c = ''1.0'') [ex_foo_13, ex_foo_10] = Some ex_foo_10"
    and exact12: "find (\<lambda>c. VERSION c = ''1.2'') [ex_foo_13, ex_foo_10] = None"
    and exact20: "find (\<lambda>c. VERSION c = ''2.0'') [ex_foo_13, ex_foo_10] = None"
    by (simp_all add: v)
  have compat12: "find (\<lambda>c. is_compatible ''1.2'' (VERSION c)) [ex_foo_13, ex_foo_10] = Some ex_foo_13"
    and compat20: "find (\<lambda>c. is_compatible ''2.0'' (VERSION c)) [ex_foo_13, ex_foo_10] = None"
    by (simp_all add: ex_foo_compatible)
  note r_bar = C2_registry_resolution [of ex_registry "''Bar''" is_compatible "''1.0''"]
  note r10 = C2_registry_resolution [of ex_registry "''Foo''" is_compatible "''1.0''"]
  note r12 = C2_registry_resolution [of ex_registry "''Foo''" is_compatible "''1.2''"]
  note r20 = C2_registry_resolution [of ex_registry "''Foo''" is_compatible "''2.0''"]
  from r_bar bar have a: "obj_class_from_name is_compatible ex_registry ''Bar'' ''1.0''
      = Inl (UnsupportedObjectError ''Bar'')"
    by blast
  from r10 ex_registry_foo exact10
  have b: "obj_class_from_name is_compatible ex_registry ''Foo'' ''1.0'' = Inr ex_foo_10"
    by blast
  from r12 ex_registry_foo exact12 compat12
  have c: "obj_class_from_name is_compatible ex_registry ''Foo'' ''1.2'' = Inr ex_foo_13"
    and "highest_first [ex_foo_13, ex_foo_10] \<longrightarrow>
      (\<forall>d \<in> set [ex_foo_13, ex_foo_10]. is_compatible ''1.2'' (VERSION d) \<longrightarrow>
         version_key d \<le> version_key ex_foo_13)"
    by blast+
  from r20 ex_registry_foo exact20 compat20
  have "obj_class_from_name is_compatible ex_registry ''Foo'' ''2.0''
      = Inl (IncompatibleObjectVersion ''Foo'' ''2.0'' (VERSION ex_foo_13))"
    and "highest_first [ex_foo_13, ex_foo_10] \<longrightarrow>
      (\<forall>d \<in> set [ex_foo_13, ex_foo_10]. version_key d \<le> version_key ex_foo_13)"
    by blast+
  with hf have d: "obj_class_from_name is_compatible ex_registry ''Foo'' ''2.0''
      = Inl (IncompatibleObjectVersion ''Foo'' ''2.0'' ''1.3'')"
    and e: "version_key ex_foo_10 \<le> version_key ex_foo_13"
    by (simp_all add: v)
  from a b c d e show ?thesis by (simp only: simp_thms)
qed

subsection \<open>The namespace and the version of a hydrated object\<close>

text \<open>
  Claim C10. A primitive whose namespace is not \<^verbatim>\<open>nova\<close> is refused with the
  \<^verbatim>\<open>UnsupportedObjectError\<close> that names the namespace and the type, whatever the
  registry holds (the registry is not asked); and an object that
  \<^verbatim>\<open>obj_from_primitive\<close> returns has the version of the primitive, its class being the
  one the registry resolved.
\<close>

theorem C10_namespace_and_version:
  "(ns \<noteq> ''nova'' \<longrightarrow>
      obj_from_primitive is_compat reg (PObj ns name ver data changes) ctx =
        Inl (UnsupportedObjectError (ns @ ''.'' @ name)))
   \<and> (\<forall>obj. obj_from_primitive is_compat reg (PObj ns name ver data changes) ctx = Inr obj \<longrightarrow>
         obj_VERSION obj = ver \<and>
         obj_class_from_name is_compat reg name ver = Inr (obj_class obj))"
proof (intro conjI allI impI)
  assume "ns \<noteq> ''nova''"
  then show "obj_from_primitive is_compat reg (PObj ns name ver data changes) ctx =
      Inl (UnsupportedObjectError (ns @ ''.'' @ name))"
    by simp
next
  fix obj
  assume ok: "obj_from_primitive is_compat reg (PObj ns name ver data changes) ctx = Inr obj"
  then obtain objclass where c: "obj_class_from_name is_compat reg name ver = Inr objclass"
    and h: "hydrate is_compat reg objclass ctx ver (PObj ns name ver data changes) = Inr obj"
    by (auto simp del: hydrate.simps split: if_splits sum.splits)
  from hydrate_sel [OF h] show "obj_VERSION obj = ver" by simp
  from hydrate_sel [OF h] c show "obj_class_from_name is_compat reg name ver = Inr (obj_class obj)"
    by simp
qed

theorem C10_namespace_and_version_witness:
  "obj_from_primitive is_compatible ex_registry (PObj ''cinder'' ''Foo'' ''1.2'' [] None) None
     = Inl (UnsupportedObjectError ''cinder.Foo'')
   \<and> obj_from_primitive is_compatible ex_registry (PObj ''nova'' ''Foo'' ''1.2'' [] None) None
     = Inr (NovaObject ex_foo_13 ''1.2'' None [] [])
   \<and> obj_VERSION (NovaObject ex_foo_13 ''1.2'' None [] []) = ''1.2''
   \<and> VERSION ex_foo_13 = ''1.3''"
proof -
  note w1 = C10_namespace_and_version [of "''cinder''" is_compatible ex_registry "''Foo''"
      "''1.2''" "[]" None None]
  note w2 = C10_namespace_and_version [of "''nova''" is_compatible ex_registry "''Foo''"
      "''1.2''" "[]" None None]
  have "''cinder'' \<noteq> ''nova''" by simp
  with w1 have a: "obj_from_primitive is_compatible ex_registry
      (PObj ''cinder'' ''Foo'' ''1.2'' [] None) None = Inl (UnsupportedObjectError ''cinder.Foo'')"
    by simp
  have cls: "obj_class_from_name is_compatible ex_registry ''Foo'' ''1.2'' = Inr ex_foo_13"
    by (simp add: obj_class_from_name_def ex_registry_def ex_foo_compatible)
       (simp add: ex_foo_13_def ex_foo_10_def)
  have b: "obj_from_primitive is_compatible ex_registry (PObj ''nova'' ''Foo'' ''1.2'' [] None) None
     = Inr (NovaObject ex_foo_13 ''1.2'' None [] [])"
    by (simp add: cls) (simp add: ex_foo_13_def)
  with w2 have c: "obj_VERSION (NovaObject ex_foo_13 ''1.2'' None [] []) = ''1.2''"
    by blast
  have d: "VERSION ex_foo_13 = ''1.3''" by (simp add: ex_foo_13_def)
  from a b c d show ?thesis by (simp only: simp_thms)
qed

subsection \<open>The guards of a remotable call\<close>

text \<open>
  The claim C4 as the spec words it says that a remotable call on an object without
  context fails with \<^verbatim>\<open>OrphanedObjectError\<close>. The wrapper tests the leading positional
  argument first: an orphaned object that is called with a request context as its first
  argument gets the \<^verbatim>\<open>ObjectActionError\<close>.
\<close>

theorem C4_orphan_counterexample:
  "obj_context ex_owner = None
   \<and> remotable ''save'' (\<lambda>self args kwargs. Inr (self, ())) is_compatible ex_registry None
        ex_owner [ContextArg (RequestContext ''admin'')] []
       = Inl (ObjectActionError ''save'' ''Calling remotables with context is deprecated'')
   \<and> remotable ''save'' (\<lambda>self args kwargs. Inr (self, ())) is_compatible ex_registry None
        ex_owner [ContextArg (RequestContext ''admin'')] []
       \<noteq> Inl (OrphanedObjectError ''save'' ''Owner'')"
  by (simp add: remotable_def ex_owner_def)

text \<open>
  Claim C4, as amended. For every remotable method \<open>fn\<close>, with or without an
  indirection service: a call whose leading positional argument is a request context
  fails with the \<^verbatim>\<open>ObjectActionError\<close> of the method, whatever the context of the
  object; a call without such an argument on an object whose context is \<^verbatim>\<open>None\<close> fails
  with the \<^verbatim>\<open>OrphanedObjectError\<close> of the method and the object's type name.
\<close>

theorem C4_remotable_guards:
  "(\<forall>c rest. args = ContextArg c # rest \<longrightarrow>
      remotable fn_name fn is_compat reg indirection_api self args kwargs =
        Inl (ObjectActionError fn_name ''Calling remotables with context is deprecated''))
   \<and> (obj_context self = None \<and> (\<forall>c rest. args \<noteq> ContextArg c # rest) \<longrightarrow>
         remotable fn_name fn is_compat reg indirection_api self args kwargs =
           Inl (OrphanedObjectError fn_name (obj_name (obj_class self))))"
proof (intro conjI allI impI)
  fix c rest
  assume "args = ContextArg c # rest"
  then show "remotable fn_name fn is_compat reg indirection_api self args kwargs =
      Inl (ObjectActionError fn_name ''Calling remotables with context is deprecated'')"
    by (simp add: remotable_def)
next
  assume orphan: "obj_context self = None \<and> (\<forall>c rest. args \<noteq> ContextArg c # rest)"
  then have "\<not> (case args of ContextArg c # rest \<Rightarrow> True | _ \<Rightarrow> False)"
    by (auto split: list.splits arg.splits)
  with orphan show "remotable fn_name fn is_compat reg indirection_api self args kwargs =
      Inl (OrphanedObjectError fn_name (obj_name (obj_class self)))"
    by (simp add: remotable_def)
qed

theorem C4_remotable_guards_witness:
  "remotable ''save'' (\<lambda>self args kwargs. Inr (self, ())) is_compatible ex_registry None
     ex_child [ContextArg (RequestContext ''admin''), ValueArg VNone] []
     = Inl (ObjectActionError ''save'' ''Calling remotables with context is deprecated'')
   \<and> remotable ''save'' (\<lambda>self args kwargs. Inr (self, ())) is_compatible ex_registry None
     ex_child [ValueArg VNone] []
     = Inl (OrphanedObjectError ''save'' ''Child'')"
proof -
  note w1 = C4_remotable_guards [of "[ContextArg (RequestContext ''admin''), ValueArg VNone]"
      "''save''" "\<lambda>self args kwargs. Inr (self, ())" is_compatible ex_registry None ex_child "[]"]
  note w2 = C4_remotable_guards [of "[ValueArg VNone]"
      "''save''" "\<lambda>self args kwargs. Inr (self, ())" is_compatible ex_registry None ex_child "[]"]
  from w1 have a: "remotable ''save'' (\<lambda>self args kwargs. Inr (self, ())) is_compatible
      ex_registry None ex_child [ContextArg (RequestContext ''admin''), ValueArg VNone] []
     = Inl (ObjectActionError ''save'' ''Calling remotables with context is deprecated'')"
    by blast
  have "obj_context ex_child = None \<and>
      (\<forall>c rest. [ValueArg VNone] \<noteq> ContextArg c # (rest :: nat arg list))"
    by (simp add: ex_child_def)
  with w2 have "remotable ''save'' (\<lambda>self args kwargs. Inr (self, ())) is_compatible
      ex_registry None ex_child [ValueArg VNone] []
     = Inl (OrphanedObjectError ''save'' (obj_name (obj_class ex_child)))"
    by blast
  then have b: "remotable ''save'' (\<lambda>self args kwargs. Inr (self, ())) is_compatible
      ex_registry None ex_child [ValueArg VNone] []
     = Inl (OrphanedObjectError ''save'' ''Child'')"
    by (simp add: ex_child_def ex_child_cls_def)
  from a b show ?thesis by (simp only: simp_thms)
qed

subsection \<open>A composed field without a relationship entry\<close>

lemma make_compatible_fields_append:
  "make_compatible_fields self (fs1 @ fs2) primitive target_version =
     (case make_compatible_fields self fs1 primitive target_version of
        Inl e \<Rightarrow> Inl e
      | Inr primitive' \<Rightarrow> make_compatible_fields self fs2 primitive' target_version)"
proof (induction fs1 arbitrary: primitive)
  case Nil
  then show ?case by simp
next
  case (Cons f fs1)
  obtain key field where f: "f = (key, field)" by (cases f)
  show ?case
  proof (cases "composed field")
    case False
    then show ?thesis by (simp add: f Cons.IH)
  next
    case True
    show ?thesis
    proof (cases "obj_attr_is_set self key")
      case (Inl e)
      with True show ?thesis by (simp add: f)
    next
      case (Inr b)
      show ?thesis
      proof (cases "b \<and> map_of (obj_relationships (obj_class self)) key \<noteq> None")
        case False
        with True Inr show ?thesis
          by (cases b) (auto simp: f Cons.IH simp del: obj_make_obj_compatible.simps)
      next
        case both: True
        with True Inr show ?thesis
          by (cases "obj_make_obj_compatible self primitive target_version key")
             (auto simp: f Cons.IH simp del: obj_make_obj_compatible.simps)
      qed
    qed
  qed
qed

lemma make_compatible_fields_skip:
  assumes "\<forall>(key, field) \<in> set fs. composed field \<longrightarrow> map_of (obj_attrs self) key = None"
    and "set fs \<subseteq> set (cls_fields (obj_class self))"
  shows "make_compatible_fields self fs primitive target_version = Inr primitive"
  using assms
proof (induction fs)
  case Nil
  then show ?case by simp
next
  case (Cons f fs)
  obtain key field where f: "f = (key, field)" by (cases f)
  from Cons.prems(2) f have "key \<in> set (obj_fields self)"
    by (force simp: obj_fields_def)
  with Cons f show ?case
    by (auto simp: obj_attr_is_set_def simp del: obj_make_obj_compatible.simps)
qed

text \<open>
  Claim C9. Let \<open>key\<close> be a declared field of \<^verbatim>\<open>ObjectField\<close> or
  \<^verbatim>\<open>ListOfObjectsField\<close> type that is set and has no entry in
  \<^verbatim>\<open>obj_relationships\<close>, and \<open>before\<close> the fields that the loop of
  \<^verbatim>\<open>obj_make_compatible\<close> visits before it. Then the backport raises: what the fields
  before \<open>key\<close> raise, if one of them does, and the \<^verbatim>\<open>ObjectActionError\<close> for \<open>key\<close>
  otherwise, as it is when no field before \<open>key\<close> is a set composed field. It never
  returns a primitive. An object whose composed fields are all unset is backported
  without error, its primitive unchanged, whatever \<^verbatim>\<open>obj_relationships\<close> holds.
\<close>

theorem C9_missing_relationship:
  "(\<forall>before key field after.
      cls_fields (obj_class self) = before @ (key, field) # after \<and> composed field \<and>
      map_of (obj_attrs self) key \<noteq> None \<and>
      map_of (obj_relationships (obj_class self)) key = None \<longrightarrow>
      obj_make_compatible self primitive target_version =
        (case make_compatible_fields self before primitive target_version of
           Inl e \<Rightarrow> Inl e
         | Inr primitive' \<Rightarrow>
             Inl (ObjectActionError ''obj_make_compatible'' (''No rule for '' @ key))) \<and>
      (\<forall>primitive'. obj_make_compatible self primitive target_version \<noteq> Inr primitive') \<and>
      ((\<forall>(k, f) \<in> set before. composed f \<longrightarrow> map_of (obj_attrs self) k = None) \<longrightarrow>
         obj_make_compatible self primitive target_version =
           Inl (ObjectActionError ''obj_make_compatible'' (''No rule for '' @ key))))
   \<and> ((\<forall>(k, f) \<in> set (cls_fields (obj_class self)).
          composed f \<longrightarrow> map_of (obj_attrs self) k = None) \<longrightarrow>
        obj_make_compatible self primitive target_version = Inr primitive)"
proof (intro conjI allI impI)
  fix before key field after
  assume h: "cls_fields (obj_class self) = before @ (key, field) # after \<and> composed field \<and>
      map_of (obj_attrs self) key \<noteq> None \<and>
      map_of (obj_relationships (obj_class self)) key = None"
  then have "key \<in> set (obj_fields self)" by (simp add: obj_fields_def)
  with h have "obj_attr_is_set self key = Inr True" by (auto simp: obj_attr_is_set_def)
  with h have step: "\<And>p. make_compatible_fields self ((key, field) # after) p target_version =
      Inl (ObjectActionError ''obj_make_compatible'' (''No rule for '' @ key))"
    by (simp del: obj_make_obj_compatible.simps)
  from h have fs: "cls_fields (obj_class self) = before @ (key, field) # after" by simp
  show eq: "obj_make_compatible self primitive target_version =
        (case make_compatible_fields self before primitive target_version of
           Inl e \<Rightarrow> Inl e
         | Inr primitive' \<Rightarrow>
             Inl (ObjectActionError ''obj_make_compatible'' (''No rule for '' @ key)))"
    by (simp only: obj_make_compatible.simps fs make_compatible_fields_append step)
  show "\<And>primitive'. obj_make_compatible self primitive target_version \<noteq> Inr primitive'"
    unfolding eq by (simp split: sum.splits)
  assume "\<forall>(k, f) \<in> set before. composed f \<longrightarrow> map_of (obj_attrs self) k = None"
  moreover from h have "set before \<subseteq> set (cls_fields (obj_class self))" by auto
  ultimately have "make_compatible_fields self before primitive target_version = Inr primitive"
    by (rule make_compatible_fields_skip)
  then show "obj_make_compatible self primitive target_version =
      Inl (ObjectActionError ''obj_make_compatible'' (''No rule for '' @ key))"
    unfolding eq by simp
next
  assume "\<forall>(k, f) \<in> set (cls_fields (obj_class self)).
      composed f \<longrightarrow> map_of (obj_attrs self) k = None"
  then show "obj_make_compatible self primitive target_version = Inr primitive"
    by (simp add: make_compatible_fields_skip)
qed

theorem C9_missing_relationship_witness:
  "obj_make_compatible ex_norule_set
     [(''child'', PObj ''nova'' ''Child'' ''1.2'' [(''x'', PInt 7)] None),
      (''other'', PObj ''nova'' ''Child'' ''1.2'' [(''x'', PInt 7)] None)] ''1.5''
     = Inl (ObjectActionError ''obj_make_compatible'' ''No rule for other'')
   \<and> obj_make_compatible (NovaObject ex_norule_cls ''1.5'' None [(''other'', VObj ex_child)] [])
       [(''other'', PObj ''nova'' ''Child'' ''1.2'' [(''x'', PInt 7)] None)] ''1.5''
     = Inl (ObjectActionError ''obj_make_compatible'' ''No rule for other'')
   \<and> obj_make_compatible ex_norule_unset [] ''1.5'' = Inr []"
proof -
  let ?p = "PObj ''nova'' ''Child'' ''1.2'' [(''x'', PInt 7)] None"
  let ?only = "NovaObject ex_norule_cls ''1.5'' None [(''other'', VObj ex_child)] []"
  note w1 = C9_missing_relationship [of ex_norule_set "[(''child'', ?p), (''other'', ?p)]" "''1.5''"]
  note w2 = C9_missing_relationship [of ?only "[(''other'', ?p)]" "''1.5''"]
  note w3 = C9_missing_relationship [of ex_norule_unset "[]" "''1.5''"]
  have h1: "cls_fields (obj_class ex_norule_set) = [(''child'', ObjectField)] @ (''other'', ObjectField) # []
      \<and> composed (ObjectField :: nat field)
      \<and> map_of (obj_attrs ex_norule_set) ''other'' \<noteq> None
      \<and> map_of (obj_relationships (obj_class ex_norule_set)) ''other'' = None"
    by (simp add: ex_norule_set_def ex_norule_cls_def)
  have before1: "make_compatible_fields ex_norule_set [(''child'', ObjectField)]
      [(''child'', ?p), (''other'', ?p)] ''1.5'' = Inr [(''child'', ?p), (''other'', ?p)]"
    by (simp add: ex_norule_set_def ex_norule_cls_def obj_attr_is_set_def obj_fields_def
        obj_calculate_child_version_def version_simps getattr_def)
  from w1 h1 have "obj_make_compatible ex_norule_set [(''child'', ?p), (''other'', ?p)] ''1.5'' =
      (case make_compatible_fields ex_norule_set [(''child'', ObjectField)]
              [(''child'', ?p), (''other'', ?p)] ''1.5'' of
         Inl e \<Rightarrow> Inl e
       | Inr primitive' \<Rightarrow>
           Inl (ObjectActionError ''obj_make_compatible'' (''No rule for '' @ ''other'')))"
    by blast
  then have a: "obj_make_compatible ex_norule_set [(''child'', ?p), (''other'', ?p)] ''1.5''
      = Inl (ObjectActionError ''obj_make_compatible'' ''No rule for other'')"
    unfolding before1 by simp
  have h2: "cls_fields (obj_class ?only) = [(''child'', ObjectField)] @ (''other'', ObjectField) # []
      \<and> composed (ObjectField :: nat field)
      \<and> map_of (obj_attrs ?only) ''other'' \<noteq> None
      \<and> map_of (obj_relationships (obj_class ?only)) ''other'' = None"
    by (simp add: ex_norule_cls_def)
  have first2: "\<forall>(k, f) \<in> set [(''child'', ObjectField :: nat field)].
      composed f \<longrightarrow> map_of (obj_attrs ?only) k = None"
    by simp
  from w2 h2 first2 have "obj_make_compatible ?only [(''other'', ?p)] ''1.5''
      = Inl (ObjectActionError ''obj_make_compatible'' (''No rule for '' @ ''other''))"
    by blast
  then have b: "obj_make_compatible ?only [(''other'', ?p)] ''1.5''
      = Inl (ObjectActionError ''obj_make_compatible'' ''No rule for other'')"
    by simp
  have "\<forall>(k, f) \<in> set (cls_fields (obj_class ex_norule_unset)).
      composed f \<longrightarrow> map_of (obj_attrs ex_norule_unset) k = None"
    by (simp add: ex_norule_unset_def)
  with w3 have c: "obj_make_compatible ex_norule_unset [] ''1.5'' = Inr []"
    by blast
  from a b c show ?thesis by (simp only: simp_thms)
qed

subsection \<open>The shape of a dehydrated object\<close>

lemma to_primitive_fields_keys:
  assumes "to_primitive_fields self fs acc = Inr primitive"
  shows "fst ` set primitive =
    fst ` set acc \<union> {k \<in> fst ` set fs. map_of (obj_attrs self) k \<noteq> None}"
  using assms
proof (induction fs arbitrary: acc)
  case Nil
  then show ?case by simp
next
  case (Cons f fs)
  obtain name field where f: "f = (name, field)" by (cases f)
  show ?case
  proof (cases "obj_attr_is_set self name")
    case (Inl e)
    with Cons.prems f show ?thesis by simp
  next
    case (Inr b)
    then have b: "b = (map_of (obj_attrs self) name \<noteq> None)"
      by (auto simp: obj_attr_is_set_def split: if_splits)
    show ?thesis
    proof (cases b)
      case False
      with Cons.prems f Inr have "to_primitive_fields self fs acc = Inr primitive" by simp
      from Cons.IH [OF this] False b f show ?thesis by auto
    next
      case True
      with Cons.prems f Inr obtain v p where
        "to_primitive_fields self fs (AList.update name p acc) = Inr primitive"
        by (auto split: sum.splits)
      from Cons.IH [OF this] True b f show ?thesis by (auto simp: dom_update)
    qed
  qed
qed

text \<open>
  The claim C7 as the spec words it says that the data of the primitive has exactly the
  fields that were set, also when a target version is given. The backport to the target
  version deletes a composed field that the relationship table dates after the target:
  the owner of the examples, dehydrated for version 1.1, has its field \<open>child\<close> set and
  no data at all.
\<close>

theorem C7_data_counterexample:
  "map_of (obj_attrs ex_owner) ''child'' = Some (VObj ex_child)
   \<and> obj_to_primitive ex_owner (Some ''1.1'')
       = Inr (PObj ''nova'' ''Owner'' ''1.1'' [] (Some [''child'']))"
  by (simp add: ex_owner_def ex_owner_cls_def ex_child_def ex_child_cls_def
      obj_attr_is_set_def obj_fields_def getattr_def obj_calculate_child_version_def
      version_simps)

text \<open>
  Claim C7, as amended. A primitive that \<^verbatim>\<open>obj_to_primitive\<close> returns has the namespace
  \<^verbatim>\<open>nova\<close>, the name of the object's class, the target version if one is given and not
  empty, else the version of the object, and the key \<^verbatim>\<open>nova_object.changes\<close> (then with
  the names of \<^verbatim>\<open>obj_what_changed\<close>) if and only if \<^verbatim>\<open>obj_what_changed\<close> is not
  empty. With no target version its data has exactly the declared fields that are set;
  with a target version its data is what \<^verbatim>\<open>obj_make_compatible\<close> makes of the dict of
  exactly those fields.
\<close>

theorem C7_primitive_shape:
  "\<forall>p. obj_to_primitive self target_version = Inr p \<longrightarrow>
     (\<exists>data. p = PObj ''nova'' (obj_name (obj_class self))
         (if truthy target_version then the target_version else obj_VERSION self) data
         (if obj_what_changed self \<noteq> [] then Some (obj_what_changed self) else None))
     \<and> (nova_object_changes p \<noteq> None \<longleftrightarrow> obj_what_changed self \<noteq> [])
     \<and> (\<not> truthy target_version \<longrightarrow>
          fst ` set (nova_object_data p) =
            {k \<in> fst ` set (cls_fields (obj_class self)). map_of (obj_attrs self) k \<noteq> None})
     \<and> (truthy target_version \<longrightarrow>
          (\<exists>primitive.
             fst ` set primitive =
               {k \<in> fst ` set (cls_fields (obj_class self)). map_of (obj_attrs self) k \<noteq> None} \<and>
             obj_make_compatible self primitive (the target_version) = Inr (nova_object_data p)))"
proof (intro allI impI)
  fix p
  assume ok: "obj_to_primitive self target_version = Inr p"
  then obtain primitive where fs:
    "to_primitive_fields self (cls_fields (obj_class self)) [] = Inr primitive"
    by (auto split: sum.splits)
  from to_primitive_fields_keys [OF fs]
  have keys: "fst ` set primitive =
      {k \<in> fst ` set (cls_fields (obj_class self)). map_of (obj_attrs self) k \<noteq> None}"
    by simp
  show "(\<exists>data. p = PObj ''nova'' (obj_name (obj_class self))
         (if truthy target_version then the target_version else obj_VERSION self) data
         (if obj_what_changed self \<noteq> [] then Some (obj_what_changed self) else None))
     \<and> (nova_object_changes p \<noteq> None \<longleftrightarrow> obj_what_changed self \<noteq> [])
     \<and> (\<not> truthy target_version \<longrightarrow>
          fst ` set (nova_object_data p) =
            {k \<in> fst ` set (cls_fields (obj_class self)). map_of (obj_attrs self) k \<noteq> None})
     \<and> (truthy target_version \<longrightarrow>
          (\<exists>primitive.
             fst ` set primitive =
               {k \<in> fst ` set (cls_fields (obj_class self)). map_of (obj_attrs self) k \<noteq> None} \<and>
             obj_make_compatible self primitive (the target_version) = Inr (nova_object_data p)))"
  proof (cases "truthy target_version")
    case False
    with ok fs have "p = PObj ''nova'' (obj_name (obj_class self)) (obj_VERSION self) primitive
        (if obj_what_changed self \<noteq> [] then Some (obj_what_changed self) else None)"
      by (simp del: obj_what_changed.simps)
    with False keys show ?thesis by (simp del: obj_what_changed.simps)
  next
    case True
    with ok fs obtain data where
      mc: "obj_make_compatible self primitive (the target_version) = Inr data"
      and p: "p = PObj ''nova'' (obj_name (obj_class self)) (the target_version) data
        (if obj_what_changed self \<noteq> [] then Some (obj_what_changed self) else None)"
      by (auto simp del: obj_what_changed.simps obj_make_compatible.simps split: sum.splits)
    from True p mc keys show ?thesis
      by (auto simp del: obj_what_changed.simps obj_make_compatible.simps)
  qed
qed

theorem C7_primitive_shape_witness:
  "obj_to_primitive ex_owner None
     = Inr (PObj ''nova'' ''Owner'' ''1.5''
         [(''child'', PObj ''nova'' ''Child'' ''1.2'' [(''x'', PInt 7)] (Some [''x'']))]
         (Some [''child'']))
   \<and> obj_what_changed ex_owner \<noteq> []
   \<and> {k \<in> fst ` set (cls_fields (obj_class ex_owner)). map_of (obj_attrs ex_owner) k \<noteq> None}
       = {''child''}
   \<and> obj_to_primitive ex_owner (Some ''1.3'')
     = Inr (PObj ''nova'' ''Owner'' ''1.3''
         [(''child'', PObj ''nova'' ''Child'' ''1.0'' [(''x'', PInt 7)] (Some [''x'']))]
         (Some [''child'']))
   \<and> (\<exists>primitive. fst ` set primitive = {''child''} \<and>
         obj_make_compatible ex_owner primitive ''1.3''
           = Inr [(''child'', PObj ''nova'' ''Child'' ''1.0'' [(''x'', PInt 7)] (Some [''x'']))])"
proof -
  let ?p = "PObj ''nova'' ''Owner'' ''1.5''
         [(''child'', PObj ''nova'' ''Child'' ''1.2'' [(''x'', PInt 7)] (Some [''x'']))]
         (Some [''child''])"
  let ?q = "PObj ''nova'' ''Owner'' ''1.3''
         [(''child'', PObj ''nova'' ''Child'' ''1.0'' [(''x'', PInt 7)] (Some [''x'']))]
         (Some [''child''])"
  have run: "obj_to_primitive ex_owner None = Inr ?p"
    by (simp add: ex_owner_def ex_owner_cls_def ex_child_def ex_child_cls_def
        obj_attr_is_set_def obj_fields_def getattr_def)
  have run3: "obj_to_primitive ex_owner (Some ''1.3'') = Inr ?q"
    by (simp add: ex_owner_def ex_owner_cls_def ex_child_def ex_child_cls_def
        obj_attr_is_set_def obj_fields_def getattr_def obj_calculate_child_version_def
        version_simps)
  from run C7_primitive_shape [of ex_owner None]
  have "(nova_object_changes ?p \<noteq> None \<longleftrightarrow> obj_what_changed ex_owner \<noteq> [])
     \<and> (\<not> truthy (None :: string option) \<longrightarrow>
          fst ` set (nova_object_data ?p) =
            {k \<in> fst ` set (cls_fields (obj_class ex_owner)).
               map_of (obj_attrs ex_owner) k \<noteq> None})"
    by blast
  then have changed: "obj_what_changed ex_owner \<noteq> []"
    and keys: "{k \<in> fst ` set (cls_fields (obj_class ex_owner)).
        map_of (obj_attrs ex_owner) k \<noteq> None} = {''child''}"
    by (simp_all del: obj_what_changed.simps)
  from run3 C7_primitive_shape [of ex_owner "Some ''1.3''"]
  have "truthy (Some ''1.3'') \<longrightarrow>
          (\<exists>primitive.
             fst ` set primitive =
               {k \<in> fst ` set (cls_fields (obj_class ex_owner)).
                  map_of (obj_attrs ex_owner) k \<noteq> None} \<and>
             obj_make_compatible ex_owner primitive (the (Some ''1.3''))
               = Inr (nova_object_data ?q))"
    by blast
  then have backport: "\<exists>primitive. fst ` set primitive = {''child''} \<and>
         obj_make_compatible ex_owner primitive ''1.3''
           = Inr [(''child'', PObj ''nova'' ''Child'' ''1.0'' [(''x'', PInt 7)] (Some [''x'']))]"
    unfolding keys by (simp del: obj_make_compatible.simps)
  from run changed keys run3 backport show ?thesis by (simp only: simp_thms)
qed

subsection \<open>What changed\<close>

lemma what_changed_fields_set:
  "set (what_changed_fields self fs changes) =
     set changes \<union>
     {f \<in> set fs. obj_attr_is_set self f = Inr True \<and>
        (\<exists>child. getattr self f = Inr (VObj child) \<and> obj_what_changed child \<noteq> [])}"
proof (induction fs arbitrary: changes)
  case Nil
  then show ?case by simp
next
  case (Cons f fs)
  have "(case getattr self f of Inr (VObj child) \<Rightarrow> obj_what_changed child \<noteq> [] | _ \<Rightarrow> False)
      = (\<exists>child. getattr self f = Inr (VObj child) \<and> obj_what_changed child \<noteq> [])"
    by (auto split: sum.splits pyval.splits)
  then show ?case
    by (auto simp: Cons.IH simp del: obj_what_changed.simps)
qed

lemma declared_field_is_set:
  assumes "f \<in> fst ` set (cls_fields (obj_class self))"
  shows "obj_attr_is_set self f = Inr (map_of (obj_attrs self) f \<noteq> None)"
  using assms by (simp add: obj_attr_is_set_def obj_fields_def)

text \<open>
  The claim C5 as the spec words it says that \<^verbatim>\<open>obj_what_changed\<close> is the union of the
  object's own changed names with the changed sets of its nested objects. The code adds
  the name of the field that holds a changed object, not the names that changed inside
  it: the owner of the examples, unchanged itself, holds a child whose field \<open>x\<close>
  changed, and reports \<open>child\<close>.
\<close>

theorem C5_union_counterexample:
  "obj_what_changed ex_child = [''x'']
   \<and> obj_changed_fields ex_owner = []
   \<and> obj_what_changed ex_owner = [''child'']
   \<and> set (obj_what_changed ex_owner)
       \<noteq> set (obj_changed_fields ex_owner) \<union> set (obj_what_changed ex_child)"
  by (simp add: ex_owner_def ex_owner_cls_def ex_child_def ex_child_cls_def
      obj_attr_is_set_def obj_fields_def getattr_def)

text \<open>
  Claim C5, as amended. \<^verbatim>\<open>obj_what_changed\<close> is the set of the object's own changed
  names together with the name of every declared field that is set to an object (a
  \<^verbatim>\<open>NovaObject\<close>, which an object list is as well) whose own \<^verbatim>\<open>obj_what_changed\<close> is
  not empty: the name of the field is added, not the names that changed inside.
\<close>

theorem C5_what_changed:
  "set (obj_what_changed self) =
     set (obj_changed_fields self) \<union>
     {f \<in> fst ` set (cls_fields (obj_class self)).
        \<exists>child. map_of (obj_attrs self) f = Some (VObj child) \<and> obj_what_changed child \<noteq> []}"
proof -
  have "\<And>f. f \<in> fst ` set (cls_fields (obj_class self)) \<Longrightarrow>
      (obj_attr_is_set self f = Inr True \<and>
        (\<exists>child. getattr self f = Inr (VObj child) \<and> obj_what_changed child \<noteq> []))
      = (\<exists>child. map_of (obj_attrs self) f = Some (VObj child) \<and> obj_what_changed child \<noteq> [])"
    by (auto simp: declared_field_is_set getattr_def simp del: obj_what_changed.simps
        split: option.splits)
  then show ?thesis
    unfolding obj_what_changed.simps [of self] what_changed_fields_set
    by (auto simp del: obj_what_changed.simps)
qed

theorem C5_what_changed_witness:
  "set (obj_what_changed ex_owner) = {''child''}
   \<and> set (obj_changed_fields ex_owner) = {}
   \<and> map_of (obj_attrs ex_owner) ''child'' = Some (VObj ex_child)
   \<and> obj_what_changed ex_child \<noteq> []"
proof -
  have child: "obj_what_changed ex_child \<noteq> []"
    by (simp add: ex_child_def ex_child_cls_def obj_attr_is_set_def obj_fields_def getattr_def)
  have attrs: "map_of (obj_attrs ex_owner) ''child'' = Some (VObj ex_child)"
    and own: "obj_changed_fields ex_owner = []"
    and fs: "fst ` set (cls_fields (obj_class ex_owner)) = {''child''}"
    by (simp_all add: ex_owner_def ex_owner_cls_def)
  from child attrs have "{f \<in> {''child''}.
      \<exists>child. map_of (obj_attrs ex_owner) f = Some (VObj child) \<and> obj_what_changed child \<noteq> []}
      = {''child''}"
    by (auto simp del: obj_what_changed.simps)
  with C5_what_changed [of ex_owner] own fs have "set (obj_what_changed ex_owner) = {''child''}"
    by (simp del: obj_what_changed.simps)
  with child attrs own show ?thesis by (simp del: obj_what_changed.simps)
qed

subsection \<open>Resetting the changes\<close>

declare obj_reset_changes.simps [simp del]

lemma reset_changes_not_recursive:
  "obj_reset_changes self fieldnames False =
     Inr (set_changed_fields self
       (if truthy fieldnames then filter (\<lambda>x. x \<notin> set (the fieldnames)) (obj_changed_fields self)
        else []))"
  by (simp add: obj_reset_changes.simps)

lemma reset_changes_changed:
  assumes "obj_reset_changes self fieldnames recursive = Inr self'"
  shows "\<exists>acc. (if recursive then
            (case obj_get_changes self of
               Inl e \<Rightarrow> Inl e
             | Inr changes \<Rightarrow> reset_loop self (map fst changes) fieldnames self)
          else Inr self) = Inr acc \<and>
      self' = set_changed_fields acc
        (if truthy fieldnames then filter (\<lambda>x. x \<notin> set (the fieldnames)) (obj_changed_fields acc)
         else [])"
  using assms by (auto simp: obj_reset_changes.simps split: sum.splits if_splits)

lemma get_changes_loop_keys:
  assumes "get_changes_loop self keys acc = Inr changes"
  shows "fst ` set changes = fst ` set acc \<union> set keys"
  using assms
  by (induction keys arbitrary: acc) (auto simp: dom_update split: sum.splits)

lemma reset_things_all2:
  assumes "reset_things things = Inr things'"
  shows "list_all2 (\<lambda>t t'. obj_reset_changes t None True = Inr t') things things'"
  using assms
proof (induction things arbitrary: things')
  case Nil
  then show ?case by simp
next
  case (Cons t things)
  from Cons.prems obtain t' rest' where "obj_reset_changes t None True = Inr t'"
    and "reset_things things = Inr rest'" and "things' = t' # rest'"
    by (auto split: sum.splits)
  with Cons.IH show ?case by simp
qed

lemma reset_changes_full:
  assumes "obj_reset_changes self None True = Inr self'"
  shows "obj_changed_fields self' = []"
  using reset_changes_changed [OF assms] by auto

lemma reset_loop_sel:
  assumes "reset_loop self keys fieldnames acc = Inr acc'"
  shows "obj_changed_fields acc' = obj_changed_fields acc"
  using assms
proof (induction keys arbitrary: acc)
  case Nil
  then show ?case by simp
next
  case (Cons k keys)
  from Cons.prems obtain acc1 where "reset_loop self keys fieldnames acc1 = Inr acc'"
    and "obj_changed_fields acc1 = obj_changed_fields acc"
    by (auto split: if_splits sum.splits bool.splits pyval.splits option.splits field.splits)
  with Cons.IH [of acc1] show ?case by simp
qed

lemma reset_loop_step:
  assumes "reset_loop self (k # keys) fieldnames acc = Inr acc'"
  shows "\<exists>acc1. reset_loop self keys fieldnames acc1 = Inr acc' \<and>
    (\<forall>g. g \<noteq> k \<longrightarrow> map_of (obj_attrs acc1) g = map_of (obj_attrs acc) g) \<and>
    ((truthy fieldnames \<longrightarrow> k \<in> set (the fieldnames)) \<longrightarrow>
       (\<forall>child. map_of (cls_fields (obj_class self)) k = Some ObjectField \<and>
          map_of (obj_attrs self) k = Some (VObj child) \<longrightarrow>
          (\<exists>child'. obj_reset_changes child None True = Inr child' \<and>
             map_of (obj_attrs acc1) k = Some (VObj child'))) \<and>
       (\<forall>things. map_of (cls_fields (obj_class self)) k = Some ListOfObjectsField \<and>
          map_of (obj_attrs self) k = Some (VList things) \<longrightarrow>
          (\<exists>things'. reset_things things = Inr things' \<and>
             map_of (obj_attrs acc1) k = Some (VList things'))))"
proof (cases "truthy fieldnames \<and> k \<notin> set (the fieldnames)")
  case True
  with assms show ?thesis by auto
next
  case pass: False
  show ?thesis
  proof (cases "map_of (obj_attrs self) k")
    case None
    with assms pass have "reset_loop self keys fieldnames acc = Inr acc'"
      by (auto simp: obj_attr_is_set_def split: if_splits)
    with None show ?thesis by auto
  next
    case (Some v)
    with assms pass have set: "obj_attr_is_set self k = Inr True"
      by (auto simp: obj_attr_is_set_def split: if_splits)
    from Some have get: "getattr self k = Inr v" by (simp add: getattr_def)
    show ?thesis
    proof (cases v)
      case VNone
      with assms pass set get Some show ?thesis by auto
    next
      case (VScalar x)
      with assms pass set get Some show ?thesis
        by (auto split: option.splits field.splits)
    next
      case (VObj child)
      with assms pass set get Some show ?thesis
        by (auto simp: update_conv' split: option.splits field.splits sum.splits)
    next
      case (VList things)
      with assms pass set get Some show ?thesis
        by (auto simp: update_conv' split: option.splits field.splits sum.splits)
    qed
  qed
qed

text \<open>The value that the loop leaves under a field.\<close>

lemma reset_loop_attrs:
  assumes "reset_loop self keys fieldnames acc = Inr acc'"
  shows "(f \<notin> set keys \<longrightarrow> map_of (obj_attrs acc') f = map_of (obj_attrs acc) f)
    \<and> (f \<in> set keys \<and> (truthy fieldnames \<longrightarrow> f \<in> set (the fieldnames)) \<longrightarrow>
         (\<forall>child. map_of (cls_fields (obj_class self)) f = Some ObjectField \<and>
            map_of (obj_attrs self) f = Some (VObj child) \<longrightarrow>
            (\<exists>child'. obj_reset_changes child None True = Inr child' \<and>
               map_of (obj_attrs acc') f = Some (VObj child'))) \<and>
         (\<forall>things. map_of (cls_fields (obj_class self)) f = Some ListOfObjectsField \<and>
            map_of (obj_attrs self) f = Some (VList things) \<longrightarrow>
            (\<exists>things'. reset_things things = Inr things' \<and>
               map_of (obj_attrs acc') f = Some (VList things'))))"
  using assms
proof (induction keys arbitrary: acc)
  case Nil
  then show ?case by simp
next
  case (Cons k keys)
  from reset_loop_step [OF Cons.prems] obtain acc1 where
    next_loop: "reset_loop self keys fieldnames acc1 = Inr acc'"
    and other: "\<forall>g. g \<noteq> k \<longrightarrow> map_of (obj_attrs acc1) g = map_of (obj_attrs acc) g"
    and here: "(truthy fieldnames \<longrightarrow> k \<in> set (the fieldnames)) \<longrightarrow>
       (\<forall>child. map_of (cls_fields (obj_class self)) k = Some ObjectField \<and>
          map_of (obj_attrs self) k = Some (VObj child) \<longrightarrow>
          (\<exists>child'. obj_reset_changes child None True = Inr child' \<and>
             map_of (obj_attrs acc1) k = Some (VObj child'))) \<and>
       (\<forall>things. map_of (cls_fields (obj_class self)) k = Some ListOfObjectsField \<and>
          map_of (obj_attrs self) k = Some (VList things) \<longrightarrow>
          (\<exists>things'. reset_things things = Inr things' \<and>
             map_of (obj_attrs acc1) k = Some (VList things')))"
    by blast
  note IH = Cons.IH [OF next_loop]
  show ?case
  proof (cases "f \<in> set keys")
    case True
    with IH show ?thesis by simp
  next
    case False
    with IH have same: "map_of (obj_attrs acc') f = map_of (obj_attrs acc1) f" by simp
    show ?thesis
    proof (cases "f = k")
      case True
      from same True have "map_of (obj_attrs acc') k = map_of (obj_attrs acc1) k" by simp
      with here show ?thesis unfolding True by simp
    next
      case False
      with same other \<open>f \<notin> set keys\<close> show ?thesis by simp
    qed
  qed
qed


lemmas ex_object_simps = ex_owner_def ex_owner_cls_def ex_child_def ex_child_cls_def
  ex_list_owner_def ex_dirty_owner_def ex_list_cls_def ex_clean_child_def
  obj_attr_is_set_def obj_fields_def getattr_def obj_get_changes_def

text \<open>
  What the reset does, for \<open>fieldnames\<close> that is \<^verbatim>\<open>None\<close> or a list that is not empty.
  Without recursion it cannot fail: the changed set becomes empty for \<^verbatim>\<open>None\<close>, and
  loses exactly the given names otherwise. A recursive reset that returns does the same
  to the changed set of the object. Its loop visits the fields of
  \<^verbatim>\<open>self.obj_get_changes()\<close>, which are those that \<^verbatim>\<open>obj_what_changed\<close> reports: of
  these, and among the given names if any, an \<^verbatim>\<open>ObjectField\<close> set to an object holds
  the full recursive reset of that object afterwards, and a \<^verbatim>\<open>ListOfObjectsField\<close> set
  to a list holds the full recursive resets of its elements, each with an empty changed
  set. No other field is visited.
\<close>

lemma reset_changes_visited_fields:
  assumes given: "fieldnames \<noteq> Some []"
  shows
  "obj_reset_changes self fieldnames False =
     Inr (set_changed_fields self
       (case fieldnames of None \<Rightarrow> []
        | Some fs \<Rightarrow> filter (\<lambda>x. x \<notin> set fs) (obj_changed_fields self)))
   \<and> (\<forall>self'. obj_reset_changes self fieldnames True = Inr self' \<longrightarrow>
        obj_changed_fields self' =
          (case fieldnames of None \<Rightarrow> []
           | Some fs \<Rightarrow> filter (\<lambda>x. x \<notin> set fs) (obj_changed_fields self))
        \<and> (\<forall>f child. f \<in> set (obj_what_changed self) \<and>
               (\<forall>fs. fieldnames = Some fs \<longrightarrow> f \<in> set fs) \<and>
               map_of (cls_fields (obj_class self)) f = Some ObjectField \<and>
               map_of (obj_attrs self) f = Some (VObj child) \<longrightarrow>
               (\<exists>child'. obj_reset_changes child None True = Inr child' \<and>
                  obj_changed_fields child' = [] \<and>
                  map_of (obj_attrs self') f = Some (VObj child')))
        \<and> (\<forall>f things. f \<in> set (obj_what_changed self) \<and>
               (\<forall>fs. fieldnames = Some fs \<longrightarrow> f \<in> set fs) \<and>
               map_of (cls_fields (obj_class self)) f = Some ListOfObjectsField \<and>
               map_of (obj_attrs self) f = Some (VList things) \<longrightarrow>
               (\<exists>things'.
                  list_all2 (\<lambda>t t'. obj_reset_changes t None True = Inr t' \<and>
                     obj_changed_fields t' = []) things things' \<and>
                  map_of (obj_attrs self') f = Some (VList things')))
        \<and> (\<forall>f. f \<notin> set (obj_what_changed self) \<longrightarrow>
               map_of (obj_attrs self') f = map_of (obj_attrs self) f))"
proof (intro conjI allI impI)
  from given have truthy: "truthy fieldnames \<longleftrightarrow> fieldnames \<noteq> None"
    by (cases fieldnames) auto
  then show "obj_reset_changes self fieldnames False =
     Inr (set_changed_fields self
       (case fieldnames of None \<Rightarrow> []
        | Some fs \<Rightarrow> filter (\<lambda>x. x \<notin> set fs) (obj_changed_fields self)))"
    by (cases fieldnames) (simp_all add: reset_changes_not_recursive)
  fix self'
  assume ok: "obj_reset_changes self fieldnames True = Inr self'"
  from reset_changes_changed [OF ok] obtain changes acc where
    changes: "obj_get_changes self = Inr changes"
    and loop: "reset_loop self (map fst changes) fieldnames self = Inr acc"
    and self': "self' = set_changed_fields acc
        (if truthy fieldnames then filter (\<lambda>x. x \<notin> set (the fieldnames)) (obj_changed_fields acc)
         else [])"
    by (auto split: sum.splits)
  from get_changes_loop_keys [of self "obj_what_changed self" "[]" changes] changes
  have keys: "set (map fst changes) = set (obj_what_changed self)"
    by (simp add: obj_get_changes_def)
  from reset_loop_sel [OF loop] have same: "obj_changed_fields acc = obj_changed_fields self" .
  from self' have attrs: "obj_attrs self' = obj_attrs acc" by simp
  from self' same truthy show "obj_changed_fields self' =
      (case fieldnames of None \<Rightarrow> []
       | Some fs \<Rightarrow> filter (\<lambda>x. x \<notin> set fs) (obj_changed_fields self))"
    by (cases fieldnames) simp_all
  {
    fix f
    assume "f \<notin> set (obj_what_changed self)"
    with reset_loop_attrs [OF loop, of f] keys attrs
    show "map_of (obj_attrs self') f = map_of (obj_attrs self) f" by simp
  }
  {
    fix f child
    assume h: "f \<in> set (obj_what_changed self) \<and>
      (\<forall>fs. fieldnames = Some fs \<longrightarrow> f \<in> set fs) \<and>
      map_of (cls_fields (obj_class self)) f = Some ObjectField \<and>
      map_of (obj_attrs self) f = Some (VObj child)"
    with truthy have pass: "truthy fieldnames \<longrightarrow> f \<in> set (the fieldnames)"
      by (cases fieldnames) auto
    with reset_loop_attrs [OF loop, of f] keys h obtain child' where
      "obj_reset_changes child None True = Inr child'"
      and "map_of (obj_attrs acc) f = Some (VObj child')"
      by auto
    with attrs reset_changes_full [OF this(1)]
    show "\<exists>child'. obj_reset_changes child None True = Inr child' \<and>
        obj_changed_fields child' = [] \<and> map_of (obj_attrs self') f = Some (VObj child')"
      by simp
  }
  {
    fix f things
    assume h: "f \<in> set (obj_what_changed self) \<and>
      (\<forall>fs. fieldnames = Some fs \<longrightarrow> f \<in> set fs) \<and>
      map_of (cls_fields (obj_class self)) f = Some ListOfObjectsField \<and>
      map_of (obj_attrs self) f = Some (VList things)"
    with truthy have pass: "truthy fieldnames \<longrightarrow> f \<in> set (the fieldnames)"
      by (cases fieldnames) auto
    with reset_loop_attrs [OF loop, of f] keys h obtain things' where
      things: "reset_things things = Inr things'"
      and stored: "map_of (obj_attrs acc) f = Some (VList things')"
      by auto
    from reset_things_all2 [OF things]
    have "list_all2 (\<lambda>t t'. obj_reset_changes t None True = Inr t' \<and>
        obj_changed_fields t' = []) things things'"
      by (rule list_all2_mono) (simp add: reset_changes_full)
    with stored attrs
    show "\<exists>things'. list_all2 (\<lambda>t t'. obj_reset_changes t None True = Inr t' \<and>
          obj_changed_fields t' = []) things things' \<and>
        map_of (obj_attrs self') f = Some (VList things')"
      by auto
  }
qed

text \<open>
  An empty list of names is false in \<^verbatim>\<open>if fields\<close>, so that it resets every name, as
  \<^verbatim>\<open>None\<close> does, where the docstring gives that meaning to \<^verbatim>\<open>None\<close> alone.
\<close>

lemma reset_changes_empty_list:
  "obj_changed_fields ex_dirty_owner = [''kids'', ''child'']
   \<and> obj_reset_changes ex_dirty_owner (Some []) False
     = Inr (NovaObject ex_list_cls ''1.0'' None
         [(''kids'', VList [ex_child]), (''child'', VObj ex_child)] [])"
  by (simp add: ex_dirty_owner_def reset_changes_not_recursive)

text \<open>
  Claim C6: a recursive reset also resets the changes of every set, non-null field
  that holds an object or a list of objects, and the docstring of
  \<^verbatim>\<open>obj_reset_changes\<close> promises the same for any sub-object within the fields being
  reset. The code does not: its loop runs over \<^verbatim>\<open>self.obj_get_changes()\<close>, and
  \<^verbatim>\<open>obj_what_changed\<close> looks into a field only when its value is a \<^verbatim>\<open>NovaObject\<close>,
  which a list is not. The owner \<open>ex_list_owner\<close>, unchanged itself, holds in its
  \<^verbatim>\<open>ListOfObjectsField\<close> \<open>kids\<close> a list with a child whose field \<open>x\<close> changed: it
  reports no change, the loop visits nothing, and the full recursive reset returns the
  owner as it was, the child's change of \<open>x\<close> still recorded. The same child in the
  \<^verbatim>\<open>ObjectField\<close> of the equally unchanged owner \<open>ex_owner\<close> is reset.
\<close>

theorem C6_recursive_reset_skips_list:
  "map_of (cls_fields (obj_class ex_list_owner)) ''kids'' = Some ListOfObjectsField
   \<and> map_of (obj_attrs ex_list_owner) ''kids'' = Some (VList [ex_child])
   \<and> obj_changed_fields ex_list_owner = []
   \<and> obj_changed_fields ex_child = [''x'']
   \<and> obj_what_changed ex_list_owner = []
   \<and> obj_reset_changes ex_list_owner None True = Inr ex_list_owner
   \<and> obj_changed_fields ex_owner = []
   \<and> obj_what_changed ex_owner = [''child'']
   \<and> obj_reset_changes ex_owner None True
     = Inr (NovaObject ex_owner_cls ''1.5'' None [(''child'', VObj ex_clean_child)] [])"
  by (simp add: ex_object_simps obj_reset_changes.simps)

subsection \<open>The retry and the backport of the deserializer\<close>

declare process_object.simps [simp del]


lemma incompatible_registered:
  assumes "obj_from_primitive is_compat reg (PObj ns name ver data changes) ctx =
      Inl (IncompatibleObjectVersion n v s)"
  shows "\<exists>latest older. map_of reg name = Some (latest # older)"
proof (cases "map_of reg name")
  case None
  with assms show ?thesis by (simp add: obj_class_from_name_def split: if_splits)
next
  case (Some classes)
  show ?thesis
  proof (cases classes)
    case Nil
    with assms Some show ?thesis by (simp add: obj_class_from_name_def split: if_splits)
  next
    case (Cons latest older)
    with Some show ?thesis by simp
  qed
qed


text \<open>
  Claim C8. Let \<open>p\<close> be the primitive of an object and \<open>q\<close> the same primitive with
  its version cut to the first two components. If \<open>p\<close> hydrates, its object is
  returned; if hydration raises anything but \<^verbatim>\<open>IncompatibleObjectVersion\<close>, that is
  raised. If it raises \<^verbatim>\<open>IncompatibleObjectVersion\<close> and the version has two dots,
  \<^verbatim>\<open>_process_object\<close> runs once more on \<open>q\<close>, whose version has no two dots, so that
  there is no third run: the object of \<open>q\<close> is returned if it hydrates, and if it raises
  \<^verbatim>\<open>IncompatibleObjectVersion\<close> again the answer of the conductor's
  \<^verbatim>\<open>object_backport\<close> for \<open>q\<close> and the version of the first class registered under the
  name is returned (there is one: the exception is raised for registered names only).
  With a version of other than two dots the conductor is asked at once, for \<open>p\<close>.
\<close>

theorem C8_process_object:
  assumes p: "p = PObj ns name ver data changes"
    and q: "q = PObj ns name (join_with CHR ''.'' (take 2 (split_on CHR ''.'' ver))) data changes"
  shows
  "(\<forall>obj. obj_from_primitive is_compat reg p ctx = Inr obj \<longrightarrow>
      process_object is_compat reg object_backport ctx p = Inr obj)
   \<and> (\<forall>e. obj_from_primitive is_compat reg p ctx = Inl e \<and>
         (\<forall>n v s. e \<noteq> IncompatibleObjectVersion n v s) \<longrightarrow>
         process_object is_compat reg object_backport ctx p = Inl e)
   \<and> (\<forall>n v s. obj_from_primitive is_compat reg p ctx = Inl (IncompatibleObjectVersion n v s) \<and>
         count_list ver CHR ''.'' = 2 \<longrightarrow>
         count_list (nova_object_version q) CHR ''.'' \<noteq> 2 \<and>
         process_object is_compat reg object_backport ctx p =
           process_object is_compat reg object_backport ctx q \<and>
         (\<forall>obj. obj_from_primitive is_compat reg q ctx = Inr obj \<longrightarrow>
            process_object is_compat reg object_backport ctx p = Inr obj) \<and>
         (\<forall>n' v' s'.
            obj_from_primitive is_compat reg q ctx = Inl (IncompatibleObjectVersion n' v' s') \<longrightarrow>
            (\<exists>latest older. map_of reg name = Some (latest # older) \<and>
               process_object is_compat reg object_backport ctx p =
                 object_backport ctx q (VERSION latest))))
   \<and> (\<forall>n v s.
         obj_from_primitive is_compat reg p ctx = Inl (IncompatibleObjectVersion n v s) \<and>
         count_list ver CHR ''.'' \<noteq> 2 \<longrightarrow>
         (\<exists>latest older. map_of reg name = Some (latest # older) \<and>
            process_object is_compat reg object_backport ctx p =
              object_backport ctx p (VERSION latest)))"
proof -
  have dots: "count_list (nova_object_version q) CHR ''.'' \<noteq> 2"
    using count_list_truncated [of "CHR ''.''" ver] by (simp add: q)
  have unfold_p: "process_object is_compat reg object_backport ctx p =
     (case obj_from_primitive is_compat reg p ctx of
        Inr objinst \<Rightarrow> Inr objinst
      | Inl (IncompatibleObjectVersion n v s) \<Rightarrow>
          if count_list ver CHR ''.'' = 2 then
            process_object is_compat reg object_backport ctx q
          else
            (case (case map_of reg name of None \<Rightarrow> [] | Some classes \<Rightarrow> classes) of
               [] \<Rightarrow> Inl (IncompatibleObjectVersion n v s)
             | latest # older \<Rightarrow> object_backport ctx p (VERSION latest))
      | Inl e \<Rightarrow> Inl e)"
    unfolding p q by (subst process_object.simps) (simp only: prim.case)
  have unfold_p2: "process_object is_compat reg object_backport ctx q =
     (case obj_from_primitive is_compat reg q ctx of
        Inr objinst \<Rightarrow> Inr objinst
      | Inl (IncompatibleObjectVersion n v s) \<Rightarrow>
          (case (case map_of reg name of None \<Rightarrow> [] | Some classes \<Rightarrow> classes) of
             [] \<Rightarrow> Inl (IncompatibleObjectVersion n v s)
           | latest # older \<Rightarrow> object_backport ctx q (VERSION latest))
      | Inl e \<Rightarrow> Inl e)"
    using dots unfolding q
    by (subst process_object.simps) (simp only: prim.case prim.sel if_False)
  show ?thesis
  proof (intro conjI allI impI)
    fix obj assume "obj_from_primitive is_compat reg p ctx = Inr obj"
    then show "process_object is_compat reg object_backport ctx p = Inr obj"
      by (simp add: unfold_p)
  next
    fix e assume "obj_from_primitive is_compat reg p ctx = Inl e \<and>
         (\<forall>n v s. e \<noteq> IncompatibleObjectVersion n v s)"
    then show "process_object is_compat reg object_backport ctx p = Inl e"
      by (cases e) (simp_all add: unfold_p)
  next
    fix n v s
    assume h: "obj_from_primitive is_compat reg p ctx = Inl (IncompatibleObjectVersion n v s) \<and>
         count_list ver CHR ''.'' = 2"
    show "count_list (nova_object_version q) CHR ''.'' \<noteq> 2" by (rule dots)
    from h show eq: "process_object is_compat reg object_backport ctx p =
        process_object is_compat reg object_backport ctx q"
      by (simp add: unfold_p)
    {
      fix obj assume "obj_from_primitive is_compat reg q ctx = Inr obj"
      then show "process_object is_compat reg object_backport ctx p = Inr obj"
        by (simp add: eq unfold_p2)
    }
    {
      fix n' v' s'
      assume h2: "obj_from_primitive is_compat reg q ctx =
          Inl (IncompatibleObjectVersion n' v' s')"
      from h2 [unfolded q] obtain latest older
        where r: "map_of reg name = Some (latest # older)"
        using incompatible_registered by blast
      from h2 r have "map_of reg name = Some (latest # older) \<and>
          process_object is_compat reg object_backport ctx p =
            object_backport ctx q (VERSION latest)"
        by (simp add: eq unfold_p2)
      then show "\<exists>latest older. map_of reg name = Some (latest # older) \<and>
          process_object is_compat reg object_backport ctx p =
            object_backport ctx q (VERSION latest)"
        by blast
    }
  next
    fix n v s
    assume h: "obj_from_primitive is_compat reg p ctx = Inl (IncompatibleObjectVersion n v s) \<and>
         count_list ver CHR ''.'' \<noteq> 2"
    then have "obj_from_primitive is_compat reg (PObj ns name ver data changes) ctx =
        Inl (IncompatibleObjectVersion n v s)"
      by (simp add: p)
    then obtain latest older where r: "map_of reg name = Some (latest # older)"
      using incompatible_registered by blast
    from h r have "map_of reg name = Some (latest # older) \<and>
        process_object is_compat reg object_backport ctx p =
          object_backport ctx p (VERSION latest)"
      by (simp add: unfold_p)
    then show "\<exists>latest older. map_of reg name = Some (latest # older) \<and>
        process_object is_compat reg object_backport ctx p =
          object_backport ctx p (VERSION latest)"
      by blast
  qed
qed


lemma ex_truncate: "join_with CHR ''.'' (take 2 (split_on CHR ''.'' ''1.3.1'')) = ''1.3''"
  "join_with CHR ''.'' (take 2 (split_on CHR ''.'' ''2.0.1'')) = ''2.0''"
  by simp_all

lemma ex_strict_compat:
  "\<not> ex_strict_compatible ''1.3.1'' ''1.3''" "\<not> ex_strict_compatible ''1.3.1'' ''1.0''"
  by (simp_all add: ex_strict_compatible_def version_simps version_major_def)

lemma ex_foo_versions: "VERSION ex_foo_13 = ''1.3''" "VERSION ex_foo_10 = ''1.0''"
  "cls_fields ex_foo_13 = [(''child'', ObjectField)]"
  by (simp_all add: ex_foo_13_def ex_foo_10_def)

lemma ex_is_compat:
  "\<not> is_compatible ''2.0.1'' ''1.3''" "\<not> is_compatible ''2.0.1'' ''1.0''"
  "\<not> is_compatible ''2.0'' ''1.3''" "\<not> is_compatible ''2.0'' ''1.0''"
  by (simp_all add: is_compatible_def version_simps version_major_def version_minor_def)

theorem C8_process_object_witness:
  "process_object ex_strict_compatible ex_registry ex_backport None
     (PObj ''nova'' ''Foo'' ''1.3.1'' [] None)
     = Inr (NovaObject ex_foo_13 ''1.3'' None [] [])
   \<and> process_object is_compatible ex_registry ex_backport None
       (PObj ''nova'' ''Foo'' ''2.0.1'' [] None)
     = ex_backport None (PObj ''nova'' ''Foo'' ''2.0'' [] None) ''1.3''
   \<and> process_object is_compatible ex_registry ex_backport None
       (PObj ''nova'' ''Foo'' ''2.0'' [] None)
     = ex_backport None (PObj ''nova'' ''Foo'' ''2.0'' [] None) ''1.3''
   \<and> process_object is_compatible ex_registry ex_backport None
       (PObj ''nova'' ''Bar'' ''2.0.1'' [] None)
     = Inl (UnsupportedObjectError ''Bar'')"
proof -
  have reg: "map_of ex_registry ''Foo'' = Some (ex_foo_13 # [ex_foo_10])"
    and bar: "map_of ex_registry ''Bar'' = None"
    by (simp_all add: ex_registry_def)
  have h131: "obj_from_primitive ex_strict_compatible ex_registry
      (PObj ''nova'' ''Foo'' ''1.3.1'' [] None) None
      = Inl (IncompatibleObjectVersion ''Foo'' ''1.3.1'' ''1.3'')"
    by (simp add: obj_class_from_name_def reg ex_foo_versions ex_strict_compat)
  have h13: "obj_from_primitive ex_strict_compatible ex_registry
      (PObj ''nova'' ''Foo'' ''1.3'' [] None) None = Inr (NovaObject ex_foo_13 ''1.3'' None [] [])"
    by (simp add: obj_class_from_name_def reg ex_foo_versions)
  have h201: "obj_from_primitive is_compatible ex_registry
      (PObj ''nova'' ''Foo'' ''2.0.1'' [] None) None
      = Inl (IncompatibleObjectVersion ''Foo'' ''2.0.1'' ''1.3'')"
    by (simp add: obj_class_from_name_def reg ex_foo_versions ex_is_compat)
  have h20: "obj_from_primitive is_compatible ex_registry
      (PObj ''nova'' ''Foo'' ''2.0'' [] None) None
      = Inl (IncompatibleObjectVersion ''Foo'' ''2.0'' ''1.3'')"
    by (simp add: obj_class_from_name_def reg ex_foo_versions ex_is_compat)
  have hbar: "obj_from_primitive is_compatible ex_registry
      (PObj ''nova'' ''Bar'' ''2.0.1'' [] None) None = Inl (UnsupportedObjectError ''Bar'')"
    by (simp add: obj_class_from_name_def bar)
  have dots: "count_list ''1.3.1'' CHR ''.'' = 2" "count_list ''2.0.1'' CHR ''.'' = 2"
    "count_list ''2.0'' CHR ''.'' \<noteq> 2"
    by simp_all
  have t131: "PObj ''nova'' ''Foo'' ''1.3'' [] None =
      PObj ''nova'' ''Foo'' (join_with CHR ''.'' (take 2 (split_on CHR ''.'' ''1.3.1''))) [] None"
    and t201: "PObj ''nova'' ''Foo'' ''2.0'' [] None =
      PObj ''nova'' ''Foo'' (join_with CHR ''.'' (take 2 (split_on CHR ''.'' ''2.0.1''))) [] None"
    by (simp_all only: ex_truncate)
  note w1 = C8_process_object [where p = "PObj ''nova'' ''Foo'' ''1.3.1'' [] None"
      and q = "PObj ''nova'' ''Foo'' ''1.3'' [] None" and ns = "''nova''" and name = "''Foo''"
      and ver = "''1.3.1''" and data = "[]" and changes = None
      and is_compat = ex_strict_compatible and reg = ex_registry and ctx = None
      and object_backport = ex_backport, OF refl t131]
  note w2 = C8_process_object [where p = "PObj ''nova'' ''Foo'' ''2.0.1'' [] None"
      and q = "PObj ''nova'' ''Foo'' ''2.0'' [] None" and ns = "''nova''" and name = "''Foo''"
      and ver = "''2.0.1''" and data = "[]" and changes = None
      and is_compat = is_compatible and reg = ex_registry and ctx = None
      and object_backport = ex_backport, OF refl t201]
  note w3 = C8_process_object [where p = "PObj ''nova'' ''Foo'' ''2.0'' [] None"
      and ns = "''nova''" and name = "''Foo''"
      and ver = "''2.0''" and data = "[]" and changes = None
      and is_compat = is_compatible and reg = ex_registry and ctx = None
      and object_backport = ex_backport, OF refl refl]
  note w4 = C8_process_object [where p = "PObj ''nova'' ''Bar'' ''2.0.1'' [] None"
      and ns = "''nova''" and name = "''Bar''"
      and ver = "''2.0.1''" and data = "[]" and changes = None
      and is_compat = is_compatible and reg = ex_registry and ctx = None
      and object_backport = ex_backport, OF refl refl]
  from w1 h131 h13 dots(1) have a: "process_object ex_strict_compatible ex_registry ex_backport None
     (PObj ''nova'' ''Foo'' ''1.3.1'' [] None) = Inr (NovaObject ex_foo_13 ''1.3'' None [] [])"
    by blast
  from w2 h201 h20 dots(2) have "\<exists>latest older.
      map_of ex_registry ''Foo'' = Some (latest # older) \<and>
      process_object is_compatible ex_registry ex_backport None
       (PObj ''nova'' ''Foo'' ''2.0.1'' [] None)
     = ex_backport None (PObj ''nova'' ''Foo'' ''2.0'' [] None) (VERSION latest)"
    by blast
  then have "process_object is_compatible ex_registry ex_backport None
       (PObj ''nova'' ''Foo'' ''2.0.1'' [] None)
     = ex_backport None (PObj ''nova'' ''Foo'' ''2.0'' [] None) (VERSION ex_foo_13)"
    unfolding reg by (elim exE conjE) simp
  then have b: "process_object is_compatible ex_registry ex_backport None
       (PObj ''nova'' ''Foo'' ''2.0.1'' [] None)
     = ex_backport None (PObj ''nova'' ''Foo'' ''2.0'' [] None) ''1.3''"
    by (simp only: ex_foo_versions)
  from w3 h20 dots(3) have "\<exists>latest older.
      map_of ex_registry ''Foo'' = Some (latest # older) \<and>
      process_object is_compatible ex_registry ex_backport None
       (PObj ''nova'' ''Foo'' ''2.0'' [] None)
     = ex_backport None (PObj ''nova'' ''Foo'' ''2.0'' [] None) (VERSION latest)"
    by blast
  then have "process_object is_compatible ex_registry ex_backport None
       (PObj ''nova'' ''Foo'' ''2.0'' [] None)
     = ex_backport None (PObj ''nova'' ''Foo'' ''2.0'' [] None) (VERSION ex_foo_13)"
    unfolding reg by (elim exE conjE) simp
  then have c: "process_object is_compatible ex_registry ex_backport None
       (PObj ''nova'' ''Foo'' ''2.0'' [] None)
     = ex_backport None (PObj ''nova'' ''Foo'' ''2.0'' [] None) ''1.3''"
    by (simp only: ex_foo_versions)
  have "\<forall>n v s. UnsupportedObjectError ''Bar'' \<noteq> IncompatibleObjectVersion n v s" by simp
  with w4 hbar have d: "process_object is_compatible ex_registry ex_backport None
       (PObj ''nova'' ''Bar'' ''2.0.1'' [] None) = Inl (UnsupportedObjectError ''Bar'')"
    by blast
  from a b c d show ?thesis by (simp only: simp_thms)
qed

subsection \<open>The round trip through the wire\<close>

declare obj_to_primitive.simps [simp del] obj_what_changed.simps [simp del]
  hydratable.simps [simp del]

lemma entries_simps [simp]:
  "entries g h [] = []"
  "entries g h (a # fs) =
     (case g (fst a) of None \<Rightarrow> [] | Some v \<Rightarrow> [(fst a, h (snd a) v)]) @ entries g h fs"
  by (simp_all add: entries_def split_def)

lemma entries_keys: "fst ` set (entries g h fs) \<subseteq> fst ` set fs"
  by (induction fs) (auto split: option.splits)

lemma map_of_entries:
  assumes "distinct (map fst fs)" and "(k, f) \<in> set fs"
  shows "map_of (entries g h fs) k = map_option (h f) (g k)"
  using assms
proof (induction fs)
  case Nil
  then show ?case by simp
next
  case (Cons a fs)
  obtain k' f' where a: "a = (k', f')" by (cases a)
  show ?case
  proof (cases "k' = k")
    case True
    with Cons.prems a have "f' = f" by (auto simp: image_iff)
    moreover from Cons.prems a True have "k \<notin> fst ` set (entries g h fs)"
      using entries_keys [of g h fs] by auto
    then have "map_of (entries g h fs) k = None" by (simp add: map_of_eq_None_iff)
    ultimately show ?thesis using a True by (auto split: option.splits)
  next
    case False
    with Cons a show ?thesis by (auto split: option.splits)
  qed
qed

lemma map_of_entries_other:
  assumes "k \<notin> fst ` set fs"
  shows "map_of (entries g h fs) k = None"
  using assms entries_keys [of g h fs] by (auto simp: map_of_eq_None_iff)

lemma entries_cong:
  assumes same: "\<And>k f. (k, f) \<in> set fs \<Longrightarrow> g k = g' k"
    and conv: "\<And>k f v. (k, f) \<in> set fs \<Longrightarrow> g k = Some v \<Longrightarrow> h f v = h' f v"
  shows "entries g h fs = entries g' h' fs"
proof -
  have "map (\<lambda>(k, f). case g k of None \<Rightarrow> [] | Some v \<Rightarrow> [(k, h f v)]) fs
      = map (\<lambda>(k, f). case g' k of None \<Rightarrow> [] | Some v \<Rightarrow> [(k, h' f v)]) fs"
  proof (rule map_cong [OF refl])
    fix a assume "a \<in> set fs"
    obtain k f where a: "a = (k, f)" by (cases a)
    with \<open>a \<in> set fs\<close> have mem: "(k, f) \<in> set fs" by simp
    show "(case a of (k, f) \<Rightarrow> case g k of None \<Rightarrow> [] | Some v \<Rightarrow> [(k, h f v)])
        = (case a of (k, f) \<Rightarrow> case g' k of None \<Rightarrow> [] | Some v \<Rightarrow> [(k, h' f v)])"
    proof (cases "g k")
      case None
      with same [OF mem] show ?thesis by (simp add: a)
    next
      case (Some v)
      from same [OF mem] Some have "g' k = Some v" by simp
      with Some conv [OF mem Some] show ?thesis by (simp add: a)
    qed
  qed
  then show ?thesis unfolding entries_def by (rule arg_cong [where f = concat])
qed

lemma update_append:
  "k \<notin> fst ` set al \<Longrightarrow> AList.update k v al = al @ [(k, v)]"
  by (induction al) auto

text \<open>The loop of the dehydration adds the entries of the fields that are set.\<close>

lemma to_primitive_fields_entries:
  assumes "distinct (map fst fs)"
    and "fst ` set fs \<subseteq> set (obj_fields self)"
    and "fst ` set acc \<inter> fst ` set fs = {}"
    and "\<And>k f v. (k, f) \<in> set fs \<Longrightarrow> map_of (obj_attrs self) k = Some v \<Longrightarrow>
           field_to_primitive f v = Inr (h f v)"
  shows "to_primitive_fields self fs acc = Inr (acc @ entries (map_of (obj_attrs self)) h fs)"
  using assms
proof (induction fs arbitrary: acc)
  case Nil
  then show ?case by simp
next
  case (Cons a fs)
  obtain k f where a: "a = (k, f)" by (cases a)
  from Cons.prems(2) a have set: "obj_attr_is_set self k = Inr (map_of (obj_attrs self) k \<noteq> None)"
    by (simp add: obj_attr_is_set_def)
  show ?case
  proof (cases "map_of (obj_attrs self) k")
    case None
    with Cons set a show ?thesis by auto
  next
    case (Some v)
    with Cons.prems(4) [of k f v] a have p: "field_to_primitive f v = Inr (h f v)" by simp
    from Cons.prems(3) a have "k \<notin> fst ` set acc" by auto
    then have upd: "AList.update k (h f v) acc = acc @ [(k, h f v)]" by (rule update_append)
    have "to_primitive_fields self fs (acc @ [(k, h f v)]) =
        Inr ((acc @ [(k, h f v)]) @ entries (map_of (obj_attrs self)) h fs)"
      using Cons.prems a by (intro Cons.IH) auto
    with Some set p upd a show ?thesis by (simp add: getattr_def)
  qed
qed

text \<open>The loop of the hydration sets the fields that the data has.\<close>

lemma from_primitive_fields_entries:
  assumes "distinct (map fst fs)"
    and "fst ` set (obj_attrs self) \<inter> fst ` set fs = {}"
    and "\<And>k f p. (k, f) \<in> set fs \<Longrightarrow> map_of objdata k = Some p \<Longrightarrow>
           field_from_primitive is_compat reg f (obj_context self) p = Inr (h f p)"
  shows "\<exists>self'. from_primitive_fields is_compat reg fs objdata self = Inr self' \<and>
    obj_attrs self' = obj_attrs self @ entries (map_of objdata) h fs"
  using assms
proof (induction fs arbitrary: self)
  case Nil
  then show ?case by simp
next
  case (Cons a fs)
  obtain k f where a: "a = (k, f)" by (cases a)
  show ?case
  proof (cases "map_of objdata k")
    case None
    have "\<exists>self'. from_primitive_fields is_compat reg fs objdata self = Inr self' \<and>
        obj_attrs self' = obj_attrs self @ entries (map_of objdata) h fs"
      using Cons.prems a by (intro Cons.IH) auto
    with None a show ?thesis by simp
  next
    case (Some p)
    with Cons.prems(3) [of k f p] a
    have v: "field_from_primitive is_compat reg f (obj_context self) p = Inr (h f p)" by simp
    from Cons.prems(2) a have "k \<notin> fst ` set (obj_attrs self)" by auto
    then have upd: "AList.update k (h f p) (obj_attrs self) = obj_attrs self @ [(k, h f p)]"
      by (rule update_append)
    have "\<exists>self'. from_primitive_fields is_compat reg fs objdata (setattr self k (h f p)) = Inr self' \<and>
        obj_attrs self' = obj_attrs (setattr self k (h f p)) @ entries (map_of objdata) h fs"
      using Cons.prems a upd by (intro Cons.IH) auto
    with Some v upd a show ?thesis by simp
  qed
qed


lemma strip_changes_simps [simp]:
  "strip_changes PNone = PNone"
  "strip_changes (PList ps) = PList (map strip_changes ps)"
  "strip_changes (PObj ns name ver data changes) =
     PObj ns name ver
       (map (\<lambda>(k, v). (k, strip_changes v))
          (filter (\<lambda>(k, v). k \<noteq> ''nova_object.changes'') data)) None"
  by (simp_all add: strip_changes_def)

lemma equal_prims_iff:
  assumes "obj_to_primitive a None = Inr pa" and "obj_to_primitive b None = Inr pb"
  shows "obj_equal_prims a b None = Inr True \<longleftrightarrow> strip_changes pa = strip_changes pb"
  using assms by (simp add: obj_equal_prims_def strip_changes_def Let_def)

lemma to_primitive_shape:
  assumes "obj_to_primitive self None = Inr p"
  shows "\<exists>data changes. p = PObj ''nova'' (obj_name (obj_class self)) (obj_VERSION self) data changes
    \<and> to_primitive_fields self (cls_fields (obj_class self)) [] = Inr data"
  using assms by (auto simp: obj_to_primitive.simps split: sum.splits)

lemma to_primitive_from_fields:
  assumes "to_primitive_fields self (cls_fields (obj_class self)) [] = Inr data"
  shows "\<exists>changes. obj_to_primitive self None =
    Inr (PObj ''nova'' (obj_name (obj_class self)) (obj_VERSION self) data changes)"
  using assms by (simp add: obj_to_primitive.simps)

lemma strip_entries:
  assumes "\<And>k f v. (k, f) \<in> set fs \<Longrightarrow> g k = Some v \<Longrightarrow>
      strip_changes (h f v) = strip_changes (h' f v)"
  shows "map (\<lambda>(k, v). (k, strip_changes v)) (filter (\<lambda>(k, v). Q k) (entries g h fs))
    = map (\<lambda>(k, v). (k, strip_changes v)) (filter (\<lambda>(k, v). Q k) (entries g h' fs))"
  using assms
proof (induction fs)
  case Nil
  then show ?case by simp
next
  case (Cons a fs)
  obtain k f where a: "a = (k, f)" by (cases a)
  from Cons have rest: "map (\<lambda>(k, v). (k, strip_changes v)) (filter (\<lambda>(k, v). Q k) (entries g h fs))
    = map (\<lambda>(k, v). (k, strip_changes v)) (filter (\<lambda>(k, v). Q k) (entries g h' fs))"
    by auto
  show ?case
  proof (cases "g k")
    case None
    with rest a show ?thesis by simp
  next
    case (Some v)
    with Cons.prems [of k f v] a have "strip_changes (h f v) = strip_changes (h' f v)" by simp
    with rest Some a show ?thesis by simp
  qed
qed

lemma rt_value_None: "rt_value is_compat reg f VNone"
  by (simp add: rt_value_def)

lemma rt_value_scalar:
  assumes "hydratable_value is_compat reg f (VScalar x)"
  shows "rt_value is_compat reg f (VScalar x)"
proof (cases f)
  case (Field to_prim from_prim)
  with assms have "to_prim x \<noteq> PNone" and "from_prim (to_prim x) = Inr x" by simp_all
  then have "field_from_primitive is_compat reg (Field to_prim from_prim) ctx (to_prim x)
      = Inr (VScalar x)" for ctx
    by (cases "to_prim x") simp_all
  then show ?thesis by (simp add: rt_value_def Field)
qed (use assms in simp_all)

lemma rt_value_object:
  assumes "hydratable_value is_compat reg f (VObj child)"
    and "hydratable is_compat reg child \<Longrightarrow> rt_object is_compat reg child"
  shows "rt_value is_compat reg f (VObj child)"
proof (cases f)
  case ObjectField
  with assms have rt: "rt_object is_compat reg child" by simp
  show ?thesis
    unfolding rt_value_def
  proof
    fix ctx
    from rt obtain p obj' p' where p: "obj_to_primitive child None = Inr p"
      and obj': "obj_from_primitive is_compat reg p ctx = Inr obj'"
      and p': "obj_to_primitive obj' None = Inr p'"
      and eq: "strip_changes p' = strip_changes p"
      unfolding rt_object_def by blast
    from to_primitive_shape [OF p] obj'
    have "field_from_primitive is_compat reg ObjectField ctx p = Inr (VObj obj')"
      by auto
    moreover from equal_prims_iff [OF p' p] eq have "same_value (VObj obj') (VObj child)"
      by simp
    ultimately show "\<exists>p v'. field_to_primitive f (VObj child) = Inr p \<and>
        field_from_primitive is_compat reg f ctx p = Inr v' \<and> same_value v' (VObj child) \<and>
        (\<exists>p'. field_to_primitive f v' = Inr p' \<and> strip_changes p' = strip_changes p)"
      using p p' eq by (auto simp: ObjectField)
  qed
qed (use assms in simp_all)

lemma rt_objects:
  assumes "\<forall>child \<in> set children. rt_object is_compat reg child"
  shows "\<exists>ps children'. objects_to_primitive children = Inr ps \<and>
    objects_from_primitive is_compat reg ctx ps = Inr children' \<and>
    list_all2 (\<lambda>a b. obj_equal_prims a b None = Inr True) children' children \<and>
    (\<exists>ps'. objects_to_primitive children' = Inr ps' \<and>
       map strip_changes ps' = map strip_changes ps)"
  using assms
proof (induction children)
  case Nil
  then show ?case by simp
next
  case (Cons child children)
  then obtain p obj' p' where p: "obj_to_primitive child None = Inr p"
    and obj': "obj_from_primitive is_compat reg p ctx = Inr obj'"
    and p': "obj_to_primitive obj' None = Inr p'"
    and eq: "strip_changes p' = strip_changes p"
    unfolding rt_object_def by (meson list.set_intros(1))
  from Cons obtain ps children' ps' where ps: "objects_to_primitive children = Inr ps"
    and children': "objects_from_primitive is_compat reg ctx ps = Inr children'"
    and all: "list_all2 (\<lambda>a b. obj_equal_prims a b None = Inr True) children' children"
    and ps': "objects_to_primitive children' = Inr ps'"
    and eqs: "map strip_changes ps' = map strip_changes ps"
    by auto
  from equal_prims_iff [OF p' p] eq have "obj_equal_prims obj' child None = Inr True" by simp
  with p obj' p' eq ps children' all ps' eqs show ?case by simp
qed

lemma rt_value_list:
  assumes "hydratable_value is_compat reg f (VList children)"
    and "\<And>child. child \<in> set children \<Longrightarrow> hydratable is_compat reg child \<Longrightarrow>
      rt_object is_compat reg child"
  shows "rt_value is_compat reg f (VList children)"
proof (cases f)
  case ListOfObjectsField
  with assms have all: "\<forall>child \<in> set children. rt_object is_compat reg child" by simp
  show ?thesis
    unfolding rt_value_def
  proof
    fix ctx
    from rt_objects [OF all, of ctx] obtain ps children' ps' where
      "objects_to_primitive children = Inr ps"
      "objects_from_primitive is_compat reg ctx ps = Inr children'"
      "list_all2 (\<lambda>a b. obj_equal_prims a b None = Inr True) children' children"
      "objects_to_primitive children' = Inr ps'"
      "map strip_changes ps' = map strip_changes ps"
      by blast
    then show "\<exists>p v'. field_to_primitive f (VList children) = Inr p \<and>
        field_from_primitive is_compat reg f ctx p = Inr v' \<and> same_value v' (VList children) \<and>
        (\<exists>p'. field_to_primitive f v' = Inr p' \<and> strip_changes p' = strip_changes p)"
      by (simp add: ListOfObjectsField)
  qed
qed (use assms in simp_all)


lemma entries_lookup:
  assumes "\<And>k f. (k, f) \<in> set fs \<Longrightarrow> g' k = map_option (m f) (g k)"
  shows "entries g' h fs = entries g (\<lambda>f v. h f (m f v)) fs"
  using assms
proof (induction fs)
  case Nil
  then show ?case by simp
next
  case (Cons a fs)
  obtain k f where a: "a = (k, f)" by (cases a)
  from Cons.prems [of k f] a have "g' k = map_option (m f) (g k)" by simp
  moreover from Cons have "entries g' h fs = entries g (\<lambda>f v. h f (m f v)) fs" by auto
  ultimately show ?case by (cases "g k") (simp_all add: a)
qed

lemma rt_object_step:
  assumes hyd: "hydratable is_compat reg obj"
    and IH: "\<And>k f v. (k, f) \<in> set (cls_fields (obj_class obj)) \<Longrightarrow>
      map_of (obj_attrs obj) k = Some v \<Longrightarrow> hydratable_value is_compat reg f v \<Longrightarrow>
      rt_value is_compat reg f v"
  shows "rt_object is_compat reg obj"
  unfolding rt_object_def
proof
  fix ctx
  let ?fs = "cls_fields (obj_class obj)"
  let ?g = "map_of (obj_attrs obj)"
  define hp :: "'a field \<Rightarrow> 'a pyval \<Rightarrow> prim" where "hp = (\<lambda>f v. projr (field_to_primitive f v))"
  define hv :: "'a field \<Rightarrow> prim \<Rightarrow> 'a pyval"
    where "hv = (\<lambda>f p. projr (field_from_primitive is_compat reg f ctx p))"
  from hyd have resolve: "obj_class_from_name is_compat reg (obj_name (obj_class obj))
      (obj_VERSION obj) = Inr (obj_class obj)"
    and dist: "distinct (map fst ?fs)"
    and vals: "\<forall>(k, f) \<in> set ?fs.
      case getattr obj k of Inl e \<Rightarrow> True | Inr v \<Rightarrow> hydratable_value is_compat reg f v"
    by (simp_all add: hydratable.simps)
  have star: "rt_value is_compat reg f v" if "(k, f) \<in> set ?fs" and "?g k = Some v" for k f v
  proof -
    from that vals have "hydratable_value is_compat reg f v" by (auto simp: getattr_def)
    with that show ?thesis by (rule IH)
  qed
  have conv: "field_to_primitive f v = Inr (hp f v)
      \<and> field_from_primitive is_compat reg f ctx (hp f v) = Inr (hv f (hp f v))
      \<and> same_value (hv f (hp f v)) v
      \<and> field_to_primitive f (hv f (hp f v)) = Inr (hp f (hv f (hp f v)))
      \<and> strip_changes (hp f (hv f (hp f v))) = strip_changes (hp f v)"
    if "(k, f) \<in> set ?fs" and "?g k = Some v" for k f v
  proof -
    from star [OF that] obtain p v' p' where "field_to_primitive f v = Inr p"
      and "field_from_primitive is_compat reg f ctx p = Inr v'" and "same_value v' v"
      and "field_to_primitive f v' = Inr p'" and "strip_changes p' = strip_changes p"
      unfolding rt_value_def by blast
    then show ?thesis by (simp add: hp_def hv_def)
  qed
  have declared: "fst ` set ?fs \<subseteq> set (obj_fields obj)" by (auto simp: obj_fields_def)
  have data: "to_primitive_fields obj ?fs [] = Inr (entries ?g hp ?fs)"
    using to_primitive_fields_entries [OF dist declared, of "[]" hp] conv by simp
  from to_primitive_from_fields [OF data] obtain changes where
    p: "obj_to_primitive obj None =
      Inr (PObj ''nova'' (obj_name (obj_class obj)) (obj_VERSION obj) (entries ?g hp ?fs) changes)"
    by blast
  have lookup: "map_of (entries ?g hp ?fs) k = map_option (hp f) (?g k)"
    if "(k, f) \<in> set ?fs" for k f
    using dist that by (rule map_of_entries)
  let ?self0 = "NovaObject (obj_class obj) (obj_VERSION obj) ctx [] []"
  have "\<exists>self'. from_primitive_fields is_compat reg ?fs (entries ?g hp ?fs) ?self0 = Inr self' \<and>
      obj_attrs self' = obj_attrs ?self0 @ entries (map_of (entries ?g hp ?fs)) hv ?fs"
  proof (rule from_primitive_fields_entries [OF dist])
    show "fst ` set (obj_attrs ?self0) \<inter> fst ` set ?fs = {}" by simp
  next
    fix k f q
    assume mem: "(k, f) \<in> set ?fs" and q: "map_of (entries ?g hp ?fs) k = Some q"
    with lookup [OF mem] have "map_option (hp f) (?g k) = Some q" by simp
    then obtain v where "?g k = Some v" and "q = hp f v"
      by (auto simp: map_option_eq_Some)
    with conv [OF mem this(1)]
    show "field_from_primitive is_compat reg f (obj_context ?self0) q = Inr (hv f q)" by simp
  qed
  then obtain self' where
    loop: "from_primitive_fields is_compat reg ?fs (entries ?g hp ?fs) ?self0 = Inr self'"
    and attrs': "obj_attrs self' = entries (map_of (entries ?g hp ?fs)) hv ?fs"
    by auto
  from from_primitive_fields_sel [OF loop]
  have sel': "obj_class self' = obj_class obj" "obj_VERSION self' = obj_VERSION obj" by simp_all
  define obj' where "obj' = set_changed_fields self'
      (remdups (filter (\<lambda>x. x \<in> fst ` set ?fs) (case changes of None \<Rightarrow> [] | Some xs \<Rightarrow> xs)))"
  have hydrated: "obj_from_primitive is_compat reg
      (PObj ''nova'' (obj_name (obj_class obj)) (obj_VERSION obj) (entries ?g hp ?fs) changes) ctx
      = Inr obj'"
    using resolve loop by (simp add: obj'_def)
  have cls': "obj_class obj' = obj_class obj" and ver': "obj_VERSION obj' = obj_VERSION obj"
    using sel' by (simp_all add: obj'_def)
  have "obj_attrs obj' = entries (map_of (entries ?g hp ?fs)) hv ?fs"
    using attrs' by (simp add: obj'_def)
  also have "\<dots> = entries ?g (\<lambda>f v. hv f (hp f v)) ?fs"
    using lookup by (rule entries_lookup)
  finally have attrs_obj': "obj_attrs obj' = entries ?g (\<lambda>f v. hv f (hp f v)) ?fs" .
  have lookup': "map_of (obj_attrs obj') k = map_option (\<lambda>v. hv f (hp f v)) (?g k)"
    if "(k, f) \<in> set ?fs" for k f
    unfolding attrs_obj' using dist that by (rule map_of_entries)
  have same: "\<forall>(k, f) \<in> set ?fs.
      rel_option same_value (map_of (obj_attrs obj') k) (map_of (obj_attrs obj) k)"
  proof (clarify)
    fix k f assume mem: "(k, f) \<in> set ?fs"
    show "rel_option same_value (map_of (obj_attrs obj') k) (?g k)"
    proof (cases "?g k")
      case None
      with lookup' [OF mem] show ?thesis by simp
    next
      case (Some v)
      with lookup' [OF mem] conv [OF mem Some] show ?thesis by simp
    qed
  qed
  have declared': "fst ` set (cls_fields (obj_class obj')) \<subseteq> set (obj_fields obj')"
    by (auto simp: obj_fields_def)
  have "to_primitive_fields obj' (cls_fields (obj_class obj')) [] =
      Inr ([] @ entries (map_of (obj_attrs obj')) hp (cls_fields (obj_class obj')))"
  proof (rule to_primitive_fields_entries [OF _ declared'])
    show "distinct (map fst (cls_fields (obj_class obj')))" using dist by (simp add: cls')
    show "fst ` set [] \<inter> fst ` set (cls_fields (obj_class obj')) = {}" by simp
  next
    fix k f v'
    assume "(k, f) \<in> set (cls_fields (obj_class obj'))"
      and v': "map_of (obj_attrs obj') k = Some v'"
    then have mem: "(k, f) \<in> set ?fs" by (simp add: cls')
    with lookup' [OF mem] v' have "map_option (\<lambda>v. hv f (hp f v)) (?g k) = Some v'" by simp
    then obtain v where "?g k = Some v" and "v' = hv f (hp f v)"
      by (auto simp: map_option_eq_Some)
    with conv [OF mem this(1)] show "field_to_primitive f v' = Inr (hp f v')" by simp
  qed
  then have data': "to_primitive_fields obj' (cls_fields (obj_class obj')) [] =
      Inr (entries ?g (\<lambda>f v. hp f (hv f (hp f v))) ?fs)"
    using entries_lookup [of ?fs "map_of (obj_attrs obj')" "\<lambda>f v. hv f (hp f v)" ?g hp] lookup'
    by (simp add: cls')
  from to_primitive_from_fields [OF data'] obtain changes' where
    p': "obj_to_primitive obj' None =
      Inr (PObj ''nova'' (obj_name (obj_class obj)) (obj_VERSION obj)
        (entries ?g (\<lambda>f v. hp f (hv f (hp f v))) ?fs) changes')"
    by (auto simp: cls' ver')
  have "strip_changes (PObj ''nova'' (obj_name (obj_class obj)) (obj_VERSION obj)
        (entries ?g (\<lambda>f v. hp f (hv f (hp f v))) ?fs) changes')
      = strip_changes (PObj ''nova'' (obj_name (obj_class obj)) (obj_VERSION obj)
        (entries ?g hp ?fs) changes)"
    using strip_entries [of ?fs ?g "\<lambda>f v. hp f (hv f (hp f v))" hp
        "\<lambda>k. k \<noteq> ''nova_object.changes''"] conv
    by simp
  with p hydrated same p'
  show "\<exists>p obj'. obj_to_primitive obj None = Inr p \<and>
        obj_from_primitive is_compat reg p ctx = Inr obj' \<and>
        (\<forall>(k, f) \<in> set (cls_fields (obj_class obj)).
           rel_option same_value (map_of (obj_attrs obj') k) (map_of (obj_attrs obj) k)) \<and>
        (\<exists>p'. obj_to_primitive obj' None = Inr p' \<and> strip_changes p' = strip_changes p)"
    by blast
qed


lemma rt_all:
  fixes v :: "'a pyval" and obj :: "'a nova_object"
  shows "\<forall>f. hydratable_value is_compat reg f v \<longrightarrow> rt_value is_compat reg f v"
    and "hydratable is_compat reg obj \<longrightarrow> rt_object is_compat reg obj"
proof (induction v and obj)
  case VNone
  show ?case by (simp add: rt_value_None)
next
  case (VScalar x)
  show ?case by (simp add: rt_value_scalar)
next
  case (VObj child)
  then show ?case by (simp add: rt_value_object)
next
  case (VList children)
  then show ?case by (simp add: rt_value_list)
next
  case (NovaObject cls ver ctx attrs changed)
  show ?case
  proof
    assume hyd: "hydratable is_compat reg (NovaObject cls ver ctx attrs changed)"
    show "rt_object is_compat reg (NovaObject cls ver ctx attrs changed)"
    proof (rule rt_object_step [OF hyd])
      fix k f v
      assume "map_of (obj_attrs (NovaObject cls ver ctx attrs changed)) k = Some v"
        and ok: "hydratable_value is_compat reg f v"
      then have "(k, v) \<in> set attrs" by (simp add: map_of_SomeD)
      moreover have "v \<in> Basic_BNFs.snds (k, v)" by simp
      ultimately have "\<forall>f. hydratable_value is_compat reg f v \<longrightarrow> rt_value is_compat reg f v"
        by (rule NovaObject.IH)
      with ok show "rt_value is_compat reg f v" by simp
    qed
  qed
qed

text \<open>
  Claim C3. Let \<open>E\<close> be an object that fulfils \<open>hydratable\<close>: the registry resolves its
  name and version to its class, and every field that is set holds \<^verbatim>\<open>None\<close> or a
  value of its kind that its descriptor reads back from what it wrote (and so, all the
  way down, for the objects in its fields). Then \<^verbatim>\<open>obj_to_primitive\<close> returns a
  primitive, \<^verbatim>\<open>obj_from_primitive\<close> returns an object for it, under any context, and
  that object is equal to \<open>E\<close> for \<^verbatim>\<open>obj_equal_prims\<close>, the comparison that ignores the
  changes. Field by field: a declared field is set in the new object if and only if it
  is set in \<open>E\<close>, to \<^verbatim>\<open>None\<close> where \<open>E\<close> has \<^verbatim>\<open>None\<close>, to the same scalar where \<open>E\<close> has a
  scalar, and to objects that \<^verbatim>\<open>obj_equal_prims\<close> finds equal to those of \<open>E\<close> where \<open>E\<close>
  has an object or a list of objects.
\<close>

theorem C3_round_trip:
  assumes "hydratable is_compat reg E"
  shows "\<exists>p E'. obj_to_primitive E None = Inr p \<and>
    obj_from_primitive is_compat reg p ctx = Inr E' \<and>
    obj_equal_prims E' E None = Inr True \<and>
    (\<forall>(k, f) \<in> set (cls_fields (obj_class E)).
       rel_option same_value (map_of (obj_attrs E') k) (map_of (obj_attrs E) k))"
proof -
  from rt_all(2) [of is_compat reg E] assms have "rt_object is_compat reg E" by simp
  then obtain p E' p' where p: "obj_to_primitive E None = Inr p"
    and E': "obj_from_primitive is_compat reg p ctx = Inr E'"
    and same: "\<forall>(k, f) \<in> set (cls_fields (obj_class E)).
       rel_option same_value (map_of (obj_attrs E') k) (map_of (obj_attrs E) k)"
    and p': "obj_to_primitive E' None = Inr p'" and eq: "strip_changes p' = strip_changes p"
    unfolding rt_object_def by blast
  from equal_prims_iff [OF p' p] eq have "obj_equal_prims E' E None = Inr True" by simp
  with p E' same show ?thesis by blast
qed



lemma ex_owner_hydratable: "hydratable is_compatible ex_registry ex_owner"
  by (simp add: hydratable.simps ex_owner_def ex_owner_cls_def ex_child_def ex_child_cls_def
      ex_registry_def obj_class_from_name_def getattr_def)

theorem C3_round_trip_witness:
  "hydratable is_compatible ex_registry ex_owner
   \<and> (\<exists>p E'. obj_to_primitive ex_owner None = Inr p \<and>
         obj_from_primitive is_compatible ex_registry p (Some (RequestContext ''me'')) = Inr E' \<and>
         obj_equal_prims E' ex_owner None = Inr True \<and>
         rel_option same_value (map_of (obj_attrs E') ''child'')
           (map_of (obj_attrs ex_owner) ''child''))"
proof -
  have "(''child'', ObjectField) \<in> set (cls_fields (obj_class ex_owner))"
    by (simp add: ex_owner_def ex_owner_cls_def)
  with C3_round_trip [OF ex_owner_hydratable, of "Some (RequestContext ''me'')"]
  have "\<exists>p E'. obj_to_primitive ex_owner None = Inr p \<and>
         obj_from_primitive is_compatible ex_registry p (Some (RequestContext ''me'')) = Inr E' \<and>
         obj_equal_prims E' ex_owner None = Inr True \<and>
         rel_option same_value (map_of (obj_attrs E') ''child'')
           (map_of (obj_attrs ex_owner) ''child'')"
    by blast
  with ex_owner_hydratable show ?thesis by (simp only: simp_thms)
qed

end
